(* ===== verification/Prelude.thy ===== *)
theory Prelude
  imports Main "HOL-Library.Multiset"
begin

text \<open>
  The shared vocabulary of the development: how a piece of C++ can end, the type of a
  stateful C++ computation, its sequencing and its loops, the lemma collections
  \<open>prog_simps\<close> and \<open>prog_defs\<close>, and generic lemmas on lists and multisets.
\<close>

named_theorems prog_defs \<open>unfolds the sequencing of programs down to states\<close>
named_theorems prog_simps \<open>rewrite rules on programs\<close>

section \<open>How a computation ends\<close>

text \<open>
  A C++ expression may throw, may call \<open>exit\<close>, or may have undefined behaviour. All three
  are values of \<open>stop\<close>, so that every early end of the source is a branch of the model.
  The exceptions are those the sources throw by name
  (\<open>TApplicationException\<close> with its kind and message, \<open>TProtocolException\<close> with its
  kind, the \<open>std::invalid_argument\<close> and \<open>std::out_of_range\<close> of \<open>std::stoi\<close>) and
  any other exception of a library, known by its text.
\<close>

datatype app_kind = UNKNOWN | UNKNOWN_METHOD | MISSING_RESULT | Other_app_kind nat

datatype proto_kind = INVALID_DATA | DEPTH_LIMIT | Other_proto_kind nat

datatype exn =
    TApplicationException app_kind string
  | TProtocolException proto_kind
  | Invalid_argument string
  | Out_of_range string
  | Library_exception string

datatype ub = Signed_overflow | Division_by_zero | Index_out_of_range | No_return_value
  | Uninitialised_read

datatype stop = Throw exn | Exit int | Undef ub

section \<open>Stateful computations\<close>

text \<open>
  A computation over a world \<open>'w\<close> either does not return (\<open>None\<close>: it blocks or loops
  for ever) or returns a result and the world it leaves; the result is \<open>Inl\<close> of the way
  it was cut short or \<open>Inr\<close> of its value.
\<close>

type_synonym ('w, 'a) prog = "'w \<Rightarrow> ((stop + 'a) \<times> 'w) option"

definition returnP :: "'a \<Rightarrow> ('w, 'a) prog" where
  "returnP x = (\<lambda>w. Some (Inr x, w))"

definition stopP :: "stop \<Rightarrow> ('w, 'a) prog" where
  "stopP e = (\<lambda>w. Some (Inl e, w))"

definition bindP :: "('w, 'a) prog \<Rightarrow> ('a \<Rightarrow> ('w, 'b) prog) \<Rightarrow> ('w, 'b) prog" where
  "bindP m f = (\<lambda>w. case m w of
     None \<Rightarrow> None
   | Some (Inl e, w') \<Rightarrow> Some (Inl e, w')
   | Some (Inr x, w') \<Rightarrow> f x w')"

definition seqP :: "('w, 'a) prog \<Rightarrow> ('w, 'b) prog \<Rightarrow> ('w, 'b) prog" where
  "seqP m n = bindP m (\<lambda>_. n)"

definition pureP :: "stop + 'a \<Rightarrow> ('w, 'a) prog" where
  "pureP r = (\<lambda>w. Some (r, w))"

definition getP :: "('w \<Rightarrow> 'a) \<Rightarrow> ('w, 'a) prog" where
  "getP f = (\<lambda>w. Some (Inr (f w), w))"

definition modifyP :: "('w \<Rightarrow> 'w) \<Rightarrow> ('w, unit) prog" where
  "modifyP f = (\<lambda>w. Some (Inr (), f w))"

text \<open>
  The scope of a local object with a destructor: the destructor runs when the body returns
  and when it throws; \<open>exit\<close> does not unwind the stack, and nothing is said after
  undefined behaviour.
\<close>

definition finallyP :: "('w, 'a) prog \<Rightarrow> ('w \<Rightarrow> 'w) \<Rightarrow> ('w, 'a) prog" where
  "finallyP m d = (\<lambda>w. case m w of
     None \<Rightarrow> None
   | Some (Inr x, w') \<Rightarrow> Some (Inr x, d w')
   | Some (Inl (Throw e), w') \<Rightarrow> Some (Inl (Throw e), d w')
   | Some (Inl e, w') \<Rightarrow> Some (Inl e, w'))"

text \<open>\<open>try { m } catch (const std::exception& e) { h }\<close>.\<close>

definition catchP :: "('w, 'a) prog \<Rightarrow> (exn \<Rightarrow> ('w, 'a) prog) \<Rightarrow> ('w, 'a) prog" where
  "catchP m h = (\<lambda>w. case m w of
     Some (Inl (Throw e), w') \<Rightarrow> h e w'
   | r \<Rightarrow> r)"

text \<open>
  \<open>while (true) { body }\<close>: the body gets the local variables and either goes round again
  with new ones or breaks with a value. A loop that never breaks is \<open>None\<close>.
\<close>

datatype ('s, 'b) ctl = Continue 's | Break 'b

partial_function (option) loopP :: "('s \<Rightarrow> ('w, ('s, 'b) ctl) prog) \<Rightarrow> 's \<Rightarrow> ('w, 'b) prog" where
  "loopP body s w = (case body s w of
     None \<Rightarrow> None
   | Some (r, w') \<Rightarrow> (case r of
       Inl e \<Rightarrow> Some (Inl e, w')
     | Inr c \<Rightarrow> (case c of
         Continue s' \<Rightarrow> loopP body s' w'
       | Break b \<Rightarrow> Some (Inr b, w'))))"

declare loopP.simps [code]

lemmas [prog_defs] = returnP_def stopP_def bindP_def seqP_def pureP_def getP_def modifyP_def

subsection \<open>Rewrite rules\<close>

lemma bind_return [simp, prog_simps]: "bindP (returnP x) f = f x"
  by (simp add: bindP_def returnP_def)

lemma bind_stop [simp, prog_simps]: "bindP (stopP e) f = stopP e"
  by (simp add: bindP_def stopP_def)

lemma bind_returnP [simp]: "bindP m returnP = m"
  by (auto simp: bindP_def returnP_def fun_eq_iff split: option.split prod.split sum.split)

lemma bind_assoc [prog_simps]: "bindP (bindP m f) g = bindP m (\<lambda>x. bindP (f x) g)"
  by (auto simp: bindP_def fun_eq_iff split: option.split prod.split sum.split)

lemma pure_Inr [simp, prog_simps]: "pureP (Inr x) = returnP x"
  by (simp add: pureP_def returnP_def)

lemma pure_Inl [simp, prog_simps]: "pureP (Inl e) = stopP e"
  by (simp add: pureP_def stopP_def)

lemma bindP_SomeI: "m w = Some (Inr x, w') \<Longrightarrow> bindP m f w = f x w'"
  by (simp add: bindP_def)

lemma seqP_SomeI: "m w = Some (Inr x, w') \<Longrightarrow> seqP m n w = n w'"
  by (simp add: seqP_def bindP_def)

lemma bindP_stopI: "m w = Some (Inl e, w') \<Longrightarrow> bindP m f w = Some (Inl e, w')"
  by (simp add: bindP_def)

lemma bindP_NoneI: "m w = None \<Longrightarrow> bindP m f w = None"
  by (simp add: bindP_def)

lemma bindP_Inr_iff:
  "bindP m f w = Some (Inr y, w'') \<longleftrightarrow>
     (\<exists>x w'. m w = Some (Inr x, w') \<and> f x w' = Some (Inr y, w''))"
  by (auto simp: bindP_def split: option.split prod.split sum.split)

lemma loopP_continue: "body s w = Some (Inr (Continue s'), w') \<Longrightarrow> loopP body s w = loopP body s' w'"
  by (subst loopP.simps) simp

lemma loopP_break: "body s w = Some (Inr (Break b), w') \<Longrightarrow> loopP body s w = Some (Inr b, w')"
  by (subst loopP.simps) simp

lemma loopP_stop: "body s w = Some (Inl e, w') \<Longrightarrow> loopP body s w = Some (Inl e, w')"
  by (subst loopP.simps) simp

lemma finallyP_Inr: "m w = Some (Inr x, w') \<Longrightarrow> finallyP m d w = Some (Inr x, d w')"
  by (simp add: finallyP_def)

lemma finallyP_throw: "m w = Some (Inl (Throw e), w') \<Longrightarrow> finallyP m d w = Some (Inl (Throw e), d w')"
  by (simp add: finallyP_def)

lemma catchP_Inr: "m w = Some (Inr x, w') \<Longrightarrow> catchP m h w = Some (Inr x, w')"
  by (simp add: catchP_def)

lemma catchP_throw: "m w = Some (Inl (Throw e), w') \<Longrightarrow> catchP m h w = h e w'"
  by (simp add: catchP_def)

section \<open>Lists and multisets\<close>

lemma sorted_count_le:
  assumes "sorted xs" and "k < length xs"
  shows "k < size (filter_mset (\<lambda>x. x \<le> xs ! k) (mset xs))"
proof -
  have split: "mset xs = mset (take (Suc k) xs) + mset (drop (Suc k) xs)"
    by (simp flip: mset_append)
  have "x \<le> xs ! k" if "x \<in> set (take (Suc k) xs)" for x
    using that assms by (auto simp: in_set_conv_nth sorted_nth_mono less_Suc_eq_le)
  then have "filter_mset (\<lambda>x. x \<le> xs ! k) (mset (take (Suc k) xs)) = mset (take (Suc k) xs)"
    by (subst filter_mset_eq_conv) auto
  moreover have "size (mset (take (Suc k) xs)) = Suc k"
    using assms(2) by simp
  ultimately show ?thesis
    by (subst split) simp
qed

lemma sorted_count_ge:
  assumes "sorted xs" and "k < length xs"
  shows "length xs - k \<le> size (filter_mset (\<lambda>x. xs ! k \<le> x) (mset xs))"
proof -
  have split: "mset xs = mset (take k xs) + mset (drop k xs)"
    by (simp flip: mset_append)
  have "xs ! k \<le> x" if "x \<in> set (drop k xs)" for x
    using that assms by (auto simp: in_set_conv_nth sorted_nth_mono)
  then have "filter_mset (\<lambda>x. xs ! k \<le> x) (mset (drop k xs)) = mset (drop k xs)"
    by (subst filter_mset_eq_conv) auto
  then show ?thesis
    by (subst split) simp
qed

end
