(* ===== verification/Cpp_Int.thy ===== *)
theory Cpp_Int
  imports Prelude "HOL-Library.Word" "HOL-Library.Signed_Division"
begin

text \<open>
  C++ integers and their decimal text: \<open>int64_t\<close> as a 64-bit word read as two's
  complement and ordered by that reading, with the undefined behaviour of signed overflow
  written out; the conversion of a \<open>size_t\<close> to \<open>int\<close>; \<open>std::to_string\<close> and
  \<open>std::stoi\<close>.
\<close>

section \<open>64-bit signed integers\<close>

datatype int64 = I64 (bits: "64 word")

definition ival :: "int64 \<Rightarrow> int" where
  "ival x = sint (bits x)"

definition i64 :: "int \<Rightarrow> int64" where
  "i64 k = I64 (word_of_int k)"

definition in_i64 :: "int \<Rightarrow> bool" where
  "in_i64 k \<longleftrightarrow> - (2 ^ 63) \<le> k \<and> k < 2 ^ 63"

lemma ival_i64: "in_i64 k \<Longrightarrow> ival (i64 k) = k"
  by (simp add: ival_def i64_def in_i64_def sint_sbintrunc' signed_take_bit_int_eq_self)

lemma in_i64_ival [simp, intro]: "in_i64 (ival x)"
  using sint_ge [of "bits x"] sint_lt [of "bits x"] by (simp add: in_i64_def ival_def)

lemma i64_ival [simp]: "i64 (ival x) = x"
  by (cases x) (simp add: i64_def ival_def)

lemma ival_inject: "ival x = ival y \<longleftrightarrow> x = y"
  by (metis i64_ival)

lemma ival_0 [simp]: "ival (i64 0) = 0"
  by (simp add: ival_i64 in_i64_def)

lemma i64_inject: "in_i64 a \<Longrightarrow> in_i64 b \<Longrightarrow> i64 a = i64 b \<longleftrightarrow> a = b"
  by (metis ival_i64)

text \<open>The order of \<open>int64_t\<close> is the order of the signed values, so \<open>sort\<close> sorts as \<open>std::sort\<close> does.\<close>

instantiation int64 :: linorder
begin

definition less_eq_int64 :: "int64 \<Rightarrow> int64 \<Rightarrow> bool" where
  "x \<le> y \<longleftrightarrow> ival x \<le> ival y"

definition less_int64 :: "int64 \<Rightarrow> int64 \<Rightarrow> bool" where
  "x < y \<longleftrightarrow> ival x < ival y"

instance
  by standard (auto simp: less_eq_int64_def less_int64_def ival_inject)

end

text \<open>Signed arithmetic: a result outside the type's range is undefined behaviour.\<close>

definition check_i64 :: "int \<Rightarrow> stop + int64" where
  "check_i64 k = (if in_i64 k then Inr (i64 k) else Inl (Undef Signed_overflow))"

definition add_i64 :: "int64 \<Rightarrow> int64 \<Rightarrow> stop + int64" where
  "add_i64 a b = check_i64 (ival a + ival b)"

definition sub_i64 :: "int64 \<Rightarrow> int64 \<Rightarrow> stop + int64" where
  "sub_i64 a b = check_i64 (ival a - ival b)"

definition div_i64 :: "int64 \<Rightarrow> int64 \<Rightarrow> stop + int64" where
  "div_i64 a b = (if ival b = 0 then Inl (Undef Division_by_zero)
     else check_i64 (ival a sdiv ival b))"

lemma check_i64_Inr: "check_i64 k = Inr x \<longleftrightarrow> in_i64 k \<and> ival x = k"
  by (auto simp: check_i64_def ival_i64)

lemma check_i64_Inl: "check_i64 k = Inl e \<longleftrightarrow> \<not> in_i64 k \<and> e = Undef Signed_overflow"
  by (auto simp: check_i64_def)

text \<open>Division by a positive constant truncates towards zero and never overflows.\<close>

lemma sdiv_pos_bounds:
  fixes a b :: int
  assumes "0 < b"
  shows "\<bar>a sdiv b\<bar> \<le> \<bar>a\<bar>" and "\<bar>a - b * (a sdiv b)\<bar> < b"
    and "0 \<le> a \<Longrightarrow> 0 \<le> a sdiv b" and "a \<le> 0 \<Longrightarrow> a sdiv b \<le> 0"
proof -
  have q: "a sdiv b = sgn a * (\<bar>a\<bar> div b)"
    using assms by (simp add: signed_divide_int_def)
  have d0: "0 \<le> \<bar>a\<bar> div b" and d1: "\<bar>a\<bar> div b \<le> \<bar>a\<bar>"
    using assms by (simp_all add: pos_imp_zdiv_nonneg_iff zdiv_mono2 [of "\<bar>a\<bar>" 1 b, simplified])
  show "\<bar>a sdiv b\<bar> \<le> \<bar>a\<bar>"
    using d0 d1 by (auto simp: q abs_mult sgn_if)
  have "a - b * (a sdiv b) = sgn a * (\<bar>a\<bar> mod b)"
    by (simp add: q minus_mult_div_eq_mod [symmetric] algebra_simps sgn_if)
  moreover have "0 \<le> \<bar>a\<bar> mod b" "\<bar>a\<bar> mod b < b"
    using assms by simp_all
  ultimately show "\<bar>a - b * (a sdiv b)\<bar> < b"
    by (auto simp: abs_mult sgn_if)
  show "0 \<le> a \<Longrightarrow> 0 \<le> a sdiv b" and "a \<le> 0 \<Longrightarrow> a sdiv b \<le> 0"
    using d0 by (auto simp: q sgn_if)
qed

lemma div_i64_pos:
  assumes "0 < ival b"
  shows "\<exists>q. div_i64 a b = Inr q \<and> ival q = ival a sdiv ival b"
proof -
  have "\<bar>ival a sdiv ival b\<bar> \<le> \<bar>ival a\<bar>"
    using assms by (rule sdiv_pos_bounds)
  moreover have "ival a sdiv ival b \<noteq> 2 ^ 63"
  proof
    assume "ival a sdiv ival b = 2 ^ 63"
    moreover from this have "0 < ival a"
      using sdiv_pos_bounds(4) [OF assms, of "ival a"] by force
    ultimately have "2 ^ 63 \<le> ival a"
      using \<open>\<bar>ival a sdiv ival b\<bar> \<le> \<bar>ival a\<bar>\<close> by simp
    then show False
      using in_i64_ival [of a] by (simp add: in_i64_def)
  qed
  ultimately have "in_i64 (ival a sdiv ival b)"
    using in_i64_ival [of a] by (auto simp: in_i64_def)
  with assms show ?thesis
    by (simp add: div_i64_def check_i64_def ival_i64)
qed

section \<open>size_t and int\<close>

text \<open>
  A \<open>size_t\<close> is a 64-bit word; assigning it to an \<open>int\<close> keeps the low 32 bits, read as
  two's complement (C++20; the common compilers before). Indexing a vector with an
  \<open>int\<close> converts it back, so a negative index is a huge one.
\<close>

definition size_of :: "nat \<Rightarrow> 64 word" where
  "size_of n = word_of_nat n"

definition int_of_size :: "64 word \<Rightarrow> int" where
  "int_of_size s = sint (ucast s :: 32 word)"

definition vector_at :: "'a list \<Rightarrow> int \<Rightarrow> stop + 'a" where
  "vector_at xs i =
     (if 0 \<le> i \<and> i < int (length xs) then Inr (xs ! nat i) else Inl (Undef Index_out_of_range))"

lemma int_of_size_small:
  assumes "unat s < 2 ^ 31"
  shows "int_of_size s = int (unat s)"
proof -
  have "int (unat s) < int (2 ^ 31)"
    using assms by (simp only: of_nat_less_iff)
  then have s: "uint s < 2 ^ 31"
    by (simp only: uint_nat) simp
  then have u: "uint (ucast s :: 32 word) = uint s"
    by (simp add: unsigned_ucast_eq take_bit_int_eq_self)
  have "sint (ucast s :: 32 word) = signed_take_bit 31 (uint (ucast s :: 32 word))"
    by (simp add: sint_uint)
  also have "\<dots> = uint s"
    by (simp only: u) (rule signed_take_bit_int_eq_self, use s uint_ge_0 [of s] in linarith, use s in simp)
  finally show ?thesis
    by (simp add: int_of_size_def)
qed

lemma size_of_index:
  assumes "n < 2 ^ 27"
  shows "int_of_size (size_of n div 2) = int (n div 2)"
    and "int_of_size (size_of n * 9 div 10) = int (n * 9 div 10)"
proof -
  have n: "unat (size_of n) = n"
    using assms by (simp add: size_of_def unsigned_of_nat take_bit_nat_eq_self)
  have "unat (size_of n * 9) = unat (size_of n) * unat (9 :: 64 word)"
    by (rule unat_mult_lem [THEN iffD1]) (use assms n in simp)
  then have "unat (size_of n * 9 div 10) = n * 9 div 10" "unat (size_of n div 2) = n div 2"
    by (simp_all add: unat_div n)
  with assms show "int_of_size (size_of n div 2) = int (n div 2)"
    and "int_of_size (size_of n * 9 div 10) = int (n * 9 div 10)"
    by (simp_all add: int_of_size_small)
qed

section \<open>Decimal text\<close>

definition digit :: "nat \<Rightarrow> char" where
  "digit d = char_of (48 + d)"

fun show_nat :: "nat \<Rightarrow> string" where
  "show_nat n = (if n < 10 then [digit n] else show_nat (n div 10) @ [digit (n mod 10)])"

declare show_nat.simps [simp del]

text \<open>\<open>std::to_string\<close> and \<open>operator<<\<close> on a signed integer.\<close>

definition to_string :: "int \<Rightarrow> string" where
  "to_string k = (if k < 0 then ''-'' @ show_nat (nat (- k)) else show_nat (nat k))"

lemma digit_chars:
  "digit 0 = CHR ''0''" "digit 1 = CHR ''1''" "digit (Suc 0) = CHR ''1''" "digit 2 = CHR ''2''"
  "digit 3 = CHR ''3''" "digit 4 = CHR ''4''" "digit 5 = CHR ''5''" "digit 6 = CHR ''6''"
  "digit 7 = CHR ''7''" "digit 8 = CHR ''8''" "digit 9 = CHR ''9''"
  by code_simp+

lemmas show_digits = to_string_def show_nat.simps digit_chars

text \<open>
  \<open>std::stoi\<close> in base 10, as \<open>strtol\<close> reads: leading white space, an optional sign, the
  longest run of digits; no digit is \<open>std::invalid_argument\<close>, a value that does not fit
  an \<open>int\<close> is \<open>std::out_of_range\<close>.
\<close>

definition is_space :: "char \<Rightarrow> bool" where
  "is_space c \<longleftrightarrow> of_char c \<in> {9, 10, 11, 12, 13, 32 :: nat}"

definition is_digit :: "char \<Rightarrow> bool" where
  "is_digit c \<longleftrightarrow> 48 \<le> (of_char c :: nat) \<and> (of_char c :: nat) \<le> 57"

definition digits_value :: "string \<Rightarrow> nat" where
  "digits_value cs = foldl (\<lambda>n c. 10 * n + (of_char c - 48)) 0 cs"

definition stoi :: "string \<Rightarrow> stop + int" where
  "stoi s =
     (let s1 = dropWhile is_space s;
          neg = (s1 \<noteq> [] \<and> hd s1 = CHR ''-'');
          s2 = (if s1 \<noteq> [] \<and> (hd s1 = CHR ''-'' \<or> hd s1 = CHR ''+'') then tl s1 else s1);
          ds = takeWhile is_digit s2;
          v = (if neg then - int (digits_value ds) else int (digits_value ds))
      in if ds = [] then Inl (Throw (Invalid_argument ''stoi''))
         else if v < - (2 ^ 31) \<or> 2 ^ 31 \<le> v then Inl (Throw (Out_of_range ''stoi''))
         else Inr v)"

lemma of_char_digit: "d < 10 \<Longrightarrow> of_char (digit d) = 48 + d"
  by (simp add: digit_def)

lemma is_digit_digit: "d < 10 \<Longrightarrow> is_digit (digit d)"
  by (simp add: is_digit_def of_char_digit)

lemma digits_value_snoc: "digits_value (cs @ [c]) = 10 * digits_value cs + (of_char c - 48)"
  by (simp add: digits_value_def)

lemma show_nat_correct:
  "digits_value (show_nat n) = n \<and> (\<forall>c \<in> set (show_nat n). is_digit c) \<and> show_nat n \<noteq> []"
proof (induction n rule: show_nat.induct)
  case (1 n)
  show ?case
  proof (cases "n < 10")
    case True
    then show ?thesis
      by (subst (1 2 3) show_nat.simps) (simp add: digits_value_def of_char_digit is_digit_digit)
  next
    case False
    with 1 show ?thesis
      by (subst (1 2 3) show_nat.simps) (auto simp: digits_value_snoc of_char_digit is_digit_digit)
  qed
qed

lemma not_digit_minus [simp]: "\<not> is_digit CHR ''-''" "\<not> is_digit CHR ''+''"
  by (simp_all add: is_digit_def)

lemma is_digit_not_space: "is_digit c \<Longrightarrow> \<not> is_space c"
  by (auto simp: is_digit_def is_space_def)

lemma show_nat_hd: "is_digit (hd (show_nat n))"
  using show_nat_correct [of n] by (cases "show_nat n") auto

lemma takeWhile_show_nat: "takeWhile is_digit (show_nat n) = show_nat n"
  using show_nat_correct [of n] by (simp add: takeWhile_eq_all_conv)

text \<open>Reading back what \<open>to_string\<close> wrote, and its corollary: distinct numbers have distinct texts.\<close>

lemma stoi_to_string:
  "stoi (to_string k) =
     (if - (2 ^ 31) \<le> k \<and> k < 2 ^ 31 then Inr k else Inl (Throw (Out_of_range ''stoi'')))"
proof (cases "k < 0")
  case True
  have "dropWhile is_space (to_string k) = to_string k"
    using True by (simp add: to_string_def is_space_def)
  with True show ?thesis
    using show_nat_correct [of "nat (- k)"]
    by (simp add: stoi_def to_string_def Let_def takeWhile_show_nat)
next
  case False
  obtain c cs where c: "show_nat (nat k) = c # cs"
    using show_nat_correct [of "nat k"] by (cases "show_nat (nat k)") auto
  then have d: "is_digit c" and n: "\<not> is_space c"
    using show_nat_hd [of "nat k"] is_digit_not_space by auto
  then have "c \<noteq> CHR ''-''" "c \<noteq> CHR ''+''"
    by auto
  moreover have "takeWhile is_digit (c # cs) = c # cs" and "digits_value (c # cs) = nat k"
    using takeWhile_show_nat [of "nat k"] show_nat_correct [of "nat k"] c by simp_all
  ultimately show ?thesis
    using False n by (simp add: stoi_def to_string_def Let_def c)
qed

lemma show_nat_inject: "show_nat m = show_nat n \<Longrightarrow> m = n"
  using show_nat_correct by metis

lemma to_string_inject [simp]: "to_string j = to_string k \<longleftrightarrow> j = k"
proof
  assume eq: "to_string j = to_string k"
  have hd: "hd (to_string k) = CHR ''-'' \<longleftrightarrow> k < 0" for k
    using show_nat_hd [of "nat k"] by (auto simp: to_string_def)
  from eq have "j < 0 \<longleftrightarrow> k < 0"
    using hd by metis
  with eq show "j = k"
    by (auto simp: to_string_def split: if_splits dest!: show_nat_inject)
qed simp

end
