(* ===== verification/Thrift_Types.thy ===== *)
theory Thrift_Types
  imports Cpp_Int
begin

text \<open>
  \<open>thrift-bench/gen-cpp/timing_types.h\<close> and \<open>timing_types.cpp\<close>: the class \<open>timing\<close> with
  its presence flags, its constructor, setters, comparison, copying, \<open>swap\<close> and printed
  form. Its wire form (\<open>read\<close>, \<open>write\<close>) is in \<open>Thrift_Wire\<close>.
\<close>

section \<open>The class timing\<close>

record timing_isset =
  isset_msgid :: bool
  isset_nanosec :: bool
  isset_source :: bool

record timing =
  msgid :: int64
  nanosec :: int64
  source :: string
  isset :: timing_isset

definition timing_isset_ctor :: timing_isset where
  "timing_isset_ctor = \<lparr>isset_msgid = False, isset_nanosec = False, isset_source = False\<rparr>"

definition timing_ctor :: timing where
  "timing_ctor = \<lparr>msgid = i64 0, nanosec = i64 0, source = [], isset = timing_isset_ctor\<rparr>"

definition set_msgid :: "int64 \<Rightarrow> timing \<Rightarrow> timing" where
  "set_msgid val this = this\<lparr>msgid := val\<rparr>"

definition set_nanosec :: "int64 \<Rightarrow> timing \<Rightarrow> timing" where
  "set_nanosec val this = this\<lparr>nanosec := val\<rparr>"

definition set_source :: "string \<Rightarrow> timing \<Rightarrow> timing" where
  "set_source val this = this\<lparr>source := val\<rparr>"

definition timing_eq :: "timing \<Rightarrow> timing \<Rightarrow> bool" where
  "timing_eq this rhs =
     (if \<not> (msgid this = msgid rhs) then False
      else if \<not> (nanosec this = nanosec rhs) then False
      else if \<not> (source this = source rhs) then False
      else True)"

definition timing_neq :: "timing \<Rightarrow> timing \<Rightarrow> bool" where
  "timing_neq this rhs = (\<not> timing_eq this rhs)"

text \<open>The copy constructor and \<open>operator=\<close> assign the members one by one.\<close>

definition timing_copy :: "timing \<Rightarrow> timing" where
  "timing_copy other0 = \<lparr>msgid = msgid other0, nanosec = nanosec other0,
     source = source other0, isset = isset other0\<rparr>"

definition timing_assign :: "timing \<Rightarrow> timing \<Rightarrow> timing" where
  "timing_assign this other1 = this\<lparr>msgid := msgid other1, nanosec := nanosec other1,
     source := source other1, isset := isset other1\<rparr>"

text \<open>\<open>swap(a, b)\<close>: the two objects after each member has been exchanged in turn.\<close>

definition swap_timing :: "timing \<times> timing \<Rightarrow> timing \<times> timing" where
  "swap_timing = (\<lambda>(a, b).
     let (a, b) = (a\<lparr>msgid := msgid b\<rparr>, b\<lparr>msgid := msgid a\<rparr>);
         (a, b) = (a\<lparr>nanosec := nanosec b\<rparr>, b\<lparr>nanosec := nanosec a\<rparr>);
         (a, b) = (a\<lparr>source := source b\<rparr>, b\<lparr>source := source a\<rparr>);
         (a, b) = (a\<lparr>isset := isset b\<rparr>, b\<lparr>isset := isset a\<rparr>)
     in (a, b))"

text \<open>The text \<open>printTo\<close> (and \<open>operator<<\<close>) appends to the stream.\<close>

definition printTo :: "timing \<Rightarrow> string \<Rightarrow> string" where
  "printTo this out = out @ ''timing('' @ ''msgid='' @ to_string (ival (msgid this)) @
     '', '' @ ''nanosec='' @ to_string (ival (nanosec this)) @
     '', '' @ ''source='' @ source this @ '')''"

definition timing_stream :: "string \<Rightarrow> timing \<Rightarrow> string" where
  "timing_stream out obj = printTo obj out"

section \<open>Lemmas\<close>

lemma timing_eq_iff: "timing_eq a b \<longleftrightarrow> msgid a = msgid b \<and> nanosec a = nanosec b \<and> source a = source b"
  by (simp add: timing_eq_def)

lemma timing_copy_id [simp]: "timing_copy t = t"
  by (simp add: timing_copy_def)

lemma timing_assign_id [simp]: "timing_assign this t = t"
  by (simp add: timing_assign_def)

lemma swap_timing_eq: "swap_timing (a, b) = (b, a)"
  by (simp add: swap_timing_def)

lemma no_comma_show_nat: "CHR '','' \<notin> set (show_nat n)"
  using show_nat_correct [of n] by (auto simp: is_digit_def)

lemma no_comma_to_string: "CHR '','' \<notin> set (to_string k)"
  using no_comma_show_nat by (auto simp: to_string_def)

lemma append_sep_inject:
  "c \<notin> set xs \<Longrightarrow> c \<notin> set ys \<Longrightarrow> xs @ c # us = ys @ c # vs \<longleftrightarrow> xs = ys \<and> us = vs"
proof (induction xs arbitrary: ys)
  case Nil
  then show ?case by (cases ys) auto
next
  case (Cons x xs)
  then show ?case by (cases ys) auto
qed

lemma printTo_inject:
  "printTo a out = printTo b out \<longleftrightarrow> timing_eq a b"
  by (auto simp: printTo_def timing_eq_iff append_sep_inject no_comma_to_string ival_inject)

text \<open>
  Two \<open>timing\<close> objects print the same text exactly when \<open>operator==\<close> holds: the
  printed form determines the message id, the time stamp and the source, and the presence
  flags are in neither.
\<close>

theorem printTo_determines_timing:
  "printTo a out = printTo b out \<longleftrightarrow> timing_eq a b"
  by (rule printTo_inject)

end
