(* ===== verification/Wire.thy ===== *)
theory Wire
  imports Cpp_Int "HOL-Library.Word"
begin

text \<open>
  The interface of the thrift library that the generated code of \<open>thrift-bench/gen-cpp\<close>
  uses: a protocol object with its transport (\<open>TProtocol\<close>, \<open>TTransport\<close>), the recursion
  trackers, and \<open>TApplicationException\<close>'s own \<open>read\<close> and \<open>write\<close>. The library is not part
  of the repository: it is a parameter, a record of operations, and the locales state the
  documented behaviour the generated code relies on. The last section has an instance, a
  protocol over lists of tokens, on which the laws are checked.
\<close>

section \<open>Protocol objects\<close>

type_synonym u32 = "32 word"

type_synonym int32 = "32 word"

type_synonym int16 = "16 word"

datatype ttype = T_STOP | T_I64 | T_STRING | T_STRUCT | T_other nat

text \<open>
  The message types. The library takes the number from the wire as it is, so a message may
  have one outside the enumeration: \<open>T_other_message\<close>.
\<close>

datatype mtype = T_CALL | T_REPLY | T_EXCEPTION | T_ONEWAY | T_other_message nat

text \<open>
  The operations of a protocol over a world \<open>'w\<close>. Those of structs, fields and values
  return the number of bytes they moved, a \<open>uint32_t\<close>; the out-parameters of a read are
  part of its result. \<open>readEnd\<close>, \<open>writeEnd\<close> and \<open>flush\<close> are the transport's;
  \<open>enterInput\<close> and \<open>leaveInput\<close> are constructor and destructor of \<open>TInputRecursionTracker\<close>,
  \<open>enterOutput\<close> and \<open>leaveOutput\<close> those of \<open>TOutputRecursionTracker\<close>.
\<close>

record 'w tprotocol =
  readMessageBegin :: "('w, string \<times> mtype \<times> int32) prog"
  readMessageEnd :: "('w, unit) prog"
  readStructBegin :: "('w, u32) prog"
  readStructEnd :: "('w, u32) prog"
  readFieldBegin :: "('w, ttype \<times> int16 \<times> u32) prog"
  readFieldEnd :: "('w, u32) prog"
  readI64 :: "('w, int64 \<times> u32) prog"
  readString :: "('w, string \<times> u32) prog"
  skip :: "ttype \<Rightarrow> ('w, u32) prog"
  readEnd :: "('w, u32) prog"
  enterInput :: "('w, unit) prog"
  leaveInput :: "'w \<Rightarrow> 'w"
  appexn_read :: "('w, app_kind \<times> string) prog"
  writeMessageBegin :: "string \<Rightarrow> mtype \<Rightarrow> int32 \<Rightarrow> ('w, unit) prog"
  writeMessageEnd :: "('w, unit) prog"
  writeStructBegin :: "string \<Rightarrow> ('w, u32) prog"
  writeStructEnd :: "('w, u32) prog"
  writeFieldBegin :: "string \<Rightarrow> ttype \<Rightarrow> int16 \<Rightarrow> ('w, u32) prog"
  writeFieldEnd :: "('w, u32) prog"
  writeFieldStop :: "('w, u32) prog"
  writeI64 :: "int64 \<Rightarrow> ('w, u32) prog"
  writeString :: "string \<Rightarrow> ('w, u32) prog"
  writeEnd :: "('w, u32) prog"
  flush :: "('w, unit) prog"
  enterOutput :: "('w, unit) prog"
  leaveOutput :: "'w \<Rightarrow> 'w"
  appexn_write :: "app_kind \<Rightarrow> string \<Rightarrow> ('w, unit) prog"

text \<open>The scopes of the two recursion trackers.\<close>

definition TInputRecursionTracker :: "'w tprotocol \<Rightarrow> ('w, 'a) prog \<Rightarrow> ('w, 'a) prog" where
  "TInputRecursionTracker prot body = seqP (enterInput prot) (finallyP body (leaveInput prot))"

definition TOutputRecursionTracker :: "'w tprotocol \<Rightarrow> ('w, 'a) prog \<Rightarrow> ('w, 'a) prog" where
  "TOutputRecursionTracker prot body = seqP (enterOutput prot) (finallyP body (leaveOutput prot))"

section \<open>What is on the wire\<close>

text \<open>
  A protocol's stream as a list of tokens, one per call that reads or writes it. Names of
  structs and fields are not on the wire.
\<close>

datatype token = Message string mtype int32 | Message_end | Struct_begin | Struct_end
  | Field_begin ttype int16 | Field_end | Field_stop | I64_token int64 | String_token string
  | Other_token nat nat nat | Exception_token app_kind string

text \<open>
  A value: the types the generated code reads and writes, and \<open>VOther t d k\<close> for a value of
  any other type: \<open>d\<close> is how deeply its elements are nested (0 for a scalar, 1 for a list of
  scalars, 2 for a map from scalars to lists of them, \<dots>) and \<open>k\<close> its content. A struct has a
  list of numbered fields, in any order and possibly with repetitions.
\<close>

datatype val = VI64 int64 | VString string | VStruct "(int16 \<times> val) list" | VOther nat nat nat

fun type_of :: "val \<Rightarrow> ttype" where
  "type_of (VI64 x) = T_I64"
| "type_of (VString s) = T_STRING"
| "type_of (VStruct fs) = T_STRUCT"
| "type_of (VOther t d k) = T_other t"

lemma type_of_STOP [simp]: "type_of v \<noteq> T_STOP"
  by (cases v) simp_all

definition fields_size :: "(int16 \<times> val) list \<Rightarrow> nat" where
  "fields_size = size_list (size_prod (\<lambda>_. 0) size)"

lemma size_val_fields: "size (VStruct fs) = Suc (fields_size fs)"
  by (simp add: fields_size_def)

function encode :: "val \<Rightarrow> token list" and encode_fields :: "(int16 \<times> val) list \<Rightarrow> token list" where
  "encode (VI64 x) = [I64_token x]"
| "encode (VString s) = [String_token s]"
| "encode (VOther t d k) = [Other_token t d k]"
| "encode (VStruct fs) = Struct_begin # encode_fields fs @ [Field_stop, Struct_end]"
| "encode_fields [] = []"
| "encode_fields ((i, v) # fs) = Field_begin (type_of v) i # encode v @ Field_end # encode_fields fs"
  by pat_completeness auto
termination
  by (relation "measure (case_sum size fields_size)") (auto simp: size_val_fields, auto simp: fields_size_def)

text \<open>
  The recursion depth that skipping a value takes: one tracker for the value, and one more
  for each level of structs, lists, sets and maps inside it, which \<open>skip\<close> enters by calling
  itself. Each generated reader of a struct has a tracker, too.
\<close>

function levels :: "val \<Rightarrow> int" and levels_fields :: "(int16 \<times> val) list \<Rightarrow> int" where
  "levels (VI64 x) = 1"
| "levels (VString s) = 1"
| "levels (VOther t d k) = int d + 1"
| "levels (VStruct fs) = levels_fields fs + 1"
| "levels_fields [] = 0"
| "levels_fields ((i, v) # fs) = max (levels v) (levels_fields fs)"
  by pat_completeness auto
termination
  by (relation "measure (case_sum size fields_size)") (auto simp: size_val_fields, auto simp: fields_size_def)

lemma levels_bounds [simp]:
  "1 \<le> levels x"
  "0 \<le> levels_fields fs"
  by (induction x and fs rule: levels_levels_fields.induct) auto

lemma encode_fields_append: "encode_fields (fs @ gs) = encode_fields fs @ encode_fields gs"
  by (induction fs) auto

lemma levels_fields_append: "levels_fields (fs @ gs) = max (levels_fields fs) (levels_fields gs)"
  by (induction fs) (auto simp: max.assoc max_absorb2)

section \<open>Views and laws\<close>

text \<open>
  What the generated code can tell about one protocol object in a world: the tokens still
  to be read, those written since the last \<open>flush\<close>, those flushed, the recursion depth left
  on each side (the limit less the library's counter), and the rest of the program's state.
\<close>

record 'a port =
  incoming :: "token list"
  unflushed :: "token list"
  flushed :: "token list"
  in_depth :: int
  out_depth :: int
  app :: 'a

text \<open>A computation that from every world of view \<open>v\<close> ends with \<open>r\<close> in a world of view \<open>v'\<close>.\<close>

definition yields :: "('w \<Rightarrow> 'v) \<Rightarrow> 'v \<Rightarrow> ('w, 'a) prog \<Rightarrow> stop + 'a \<Rightarrow> 'v \<Rightarrow> bool" where
  "yields view v m r v' \<longleftrightarrow> (\<forall>w. view w = v \<longrightarrow> (\<exists>w'. m w = Some (r, w') \<and> view w' = v'))"

lemma yields_return [intro]: "yields view v (returnP x) (Inr x) v"
  by (simp add: yields_def returnP_def)

lemma yields_stop [intro]: "yields view v (stopP e) (Inl e) v"
  by (simp add: yields_def stopP_def)

lemma yields_bind:
  assumes "yields view v m (Inr x) v'" and "yields view v' (f x) r v''"
  shows "yields view v (bindP m f) r v''"
  using assms unfolding yields_def by (metis bindP_SomeI)

lemma yields_bind_stop:
  assumes "yields view v m (Inl e) v'"
  shows "yields view v (bindP m f) (Inl e) v'"
  using assms unfolding yields_def by (metis bindP_stopI)

lemma yields_seq:
  assumes "yields view v m (Inr x) v'" and "yields view v' n r v''"
  shows "yields view v (seqP m n) r v''"
  unfolding seqP_def using assms by (rule yields_bind)

lemma yields_seq_stop:
  assumes "yields view v m (Inl e) v'"
  shows "yields view v (seqP m n) (Inl e) v'"
  unfolding seqP_def using assms by (rule yields_bind_stop)

lemma yields_loop_continue:
  assumes "yields view v (body s) (Inr (Continue s')) v'" and "yields view v' (loopP body s') r v''"
  shows "yields view v (loopP body s) r v''"
  using assms unfolding yields_def by (metis loopP_continue)

lemma yields_loop_break:
  assumes "yields view v (body s) (Inr (Break b)) v'"
  shows "yields view v (loopP body s) (Inr b) v'"
  using assms unfolding yields_def by (metis loopP_break)

lemma yields_loop_stop:
  assumes "yields view v (body s) (Inl e) v'"
  shows "yields view v (loopP body s) (Inl e) v'"
  using assms unfolding yields_def by (metis loopP_stop)

lemma yields_finally:
  assumes "yields view v m (Inr x) v'" and "\<And>w. view w = v' \<Longrightarrow> view (d w) = v''"
  shows "yields view v (finallyP m d) (Inr x) v''"
  using assms unfolding yields_def by (metis finallyP_Inr)

lemma yields_catch:
  assumes "yields view v m (Inr x) v'"
  shows "yields view v (catchP m h) (Inr x) v'"
  using assms unfolding yields_def by (metis catchP_Inr)

lemma yields_catch_throw:
  assumes "yields view v m (Inl (Throw e)) v'" and "yields view v' (h e) r v''"
  shows "yields view v (catchP m h) r v''"
  using assms unfolding yields_def by (metis catchP_throw)

text \<open>
  The laws of reading. \<open>cost\<close> is what a call reports as moved for its token; \<open>skip\<close>
  consumes exactly one value of the given type. A tracker takes one level of recursion
  depth and gives it back at the end of its scope; with none left its constructor counts
  all the same and throws, and there is no scope whose end would give the level back.
\<close>

locale protocol_in =
  fixes prot :: "'w tprotocol" and view :: "'w \<Rightarrow> 'a port" and cost :: "token \<Rightarrow> u32"
  assumes readMessageBegin: "incoming v = Message n mt q # ts \<Longrightarrow>
      yields view v (readMessageBegin prot) (Inr (n, mt, q)) (v\<lparr>incoming := ts\<rparr>)"
    and readMessageEnd: "incoming v = Message_end # ts \<Longrightarrow>
      yields view v (readMessageEnd prot) (Inr ()) (v\<lparr>incoming := ts\<rparr>)"
    and readStructBegin: "incoming v = Struct_begin # ts \<Longrightarrow>
      yields view v (readStructBegin prot) (Inr (cost Struct_begin)) (v\<lparr>incoming := ts\<rparr>)"
    and readStructEnd: "incoming v = Struct_end # ts \<Longrightarrow>
      yields view v (readStructEnd prot) (Inr (cost Struct_end)) (v\<lparr>incoming := ts\<rparr>)"
    and readFieldBegin: "incoming v = Field_begin t i # ts \<Longrightarrow>
      yields view v (readFieldBegin prot) (Inr (t, i, cost (Field_begin t i))) (v\<lparr>incoming := ts\<rparr>)"
    and readFieldStop: "incoming v = Field_stop # ts \<Longrightarrow>
      \<exists>i. yields view v (readFieldBegin prot) (Inr (T_STOP, i, cost Field_stop)) (v\<lparr>incoming := ts\<rparr>)"
    and readFieldEnd: "incoming v = Field_end # ts \<Longrightarrow>
      yields view v (readFieldEnd prot) (Inr (cost Field_end)) (v\<lparr>incoming := ts\<rparr>)"
    and readI64: "incoming v = I64_token x # ts \<Longrightarrow>
      yields view v (readI64 prot) (Inr (x, cost (I64_token x))) (v\<lparr>incoming := ts\<rparr>)"
    and readString: "incoming v = String_token s # ts \<Longrightarrow>
      yields view v (readString prot) (Inr (s, cost (String_token s))) (v\<lparr>incoming := ts\<rparr>)"
    and skip: "incoming v = encode c @ ts \<Longrightarrow> levels c \<le> in_depth v \<Longrightarrow>
      yields view v (skip prot (type_of c)) (Inr (sum_list (map cost (encode c)))) (v\<lparr>incoming := ts\<rparr>)"
    and readEnd: "\<exists>n. yields view v (readEnd prot) (Inr n) v"
    and enterInput: "0 < in_depth v \<Longrightarrow> yields view v (enterInput prot) (Inr ()) (v\<lparr>in_depth := in_depth v - 1\<rparr>)"
    and enterInput_limit: "in_depth v \<le> 0 \<Longrightarrow>
      yields view v (enterInput prot) (Inl (Throw (TProtocolException DEPTH_LIMIT))) (v\<lparr>in_depth := in_depth v - 1\<rparr>)"
    and leaveInput: "view (leaveInput prot w) = (view w)\<lparr>in_depth := in_depth (view w) + 1\<rparr>"
    and appexn_read: "incoming v = Exception_token k m # ts \<Longrightarrow>
      yields view v (appexn_read prot) (Inr (k, m)) (v\<lparr>incoming := ts\<rparr>)"
begin

lemma tracker:
  assumes "0 < in_depth v" and "yields view (v\<lparr>in_depth := in_depth v - 1\<rparr>) body (Inr x) v'"
    and "in_depth v' = in_depth v - 1"
  shows "yields view v (TInputRecursionTracker prot body) (Inr x) (v'\<lparr>in_depth := in_depth v\<rparr>)"
  unfolding TInputRecursionTracker_def
  by (rule yields_seq [OF enterInput [OF assms(1)] yields_finally [OF assms(2)]])
    (simp add: leaveInput assms(3))

lemma tracker_limit:
  assumes "in_depth v \<le> 0"
  shows "yields view v (TInputRecursionTracker prot body) (Inl (Throw (TProtocolException DEPTH_LIMIT)))
    (v\<lparr>in_depth := in_depth v - 1\<rparr>)"
  using enterInput_limit [OF assms] unfolding TInputRecursionTracker_def by (rule yields_seq_stop)

end

text \<open>The laws of writing.\<close>

locale protocol_out =
  fixes prot :: "'w tprotocol" and view :: "'w \<Rightarrow> 'a port" and cost :: "token \<Rightarrow> u32"
  assumes writeMessageBegin: "yields view v (writeMessageBegin prot n mt q) (Inr ())
      (v\<lparr>unflushed := unflushed v @ [Message n mt q]\<rparr>)"
    and writeMessageEnd: "yields view v (writeMessageEnd prot) (Inr ()) (v\<lparr>unflushed := unflushed v @ [Message_end]\<rparr>)"
    and writeStructBegin: "yields view v (writeStructBegin prot name) (Inr (cost Struct_begin))
      (v\<lparr>unflushed := unflushed v @ [Struct_begin]\<rparr>)"
    and writeStructEnd: "yields view v (writeStructEnd prot) (Inr (cost Struct_end))
      (v\<lparr>unflushed := unflushed v @ [Struct_end]\<rparr>)"
    and writeFieldBegin: "t \<noteq> T_STOP \<Longrightarrow> yields view v (writeFieldBegin prot name t i) (Inr (cost (Field_begin t i)))
      (v\<lparr>unflushed := unflushed v @ [Field_begin t i]\<rparr>)"
    and writeFieldEnd: "yields view v (writeFieldEnd prot) (Inr (cost Field_end))
      (v\<lparr>unflushed := unflushed v @ [Field_end]\<rparr>)"
    and writeFieldStop: "yields view v (writeFieldStop prot) (Inr (cost Field_stop))
      (v\<lparr>unflushed := unflushed v @ [Field_stop]\<rparr>)"
    and writeI64: "yields view v (writeI64 prot x) (Inr (cost (I64_token x)))
      (v\<lparr>unflushed := unflushed v @ [I64_token x]\<rparr>)"
    and writeString: "yields view v (writeString prot s) (Inr (cost (String_token s)))
      (v\<lparr>unflushed := unflushed v @ [String_token s]\<rparr>)"
    and writeEnd: "\<exists>n. yields view v (writeEnd prot) (Inr n) v"
    and flush: "yields view v (flush prot) (Inr ()) (v\<lparr>unflushed := [], flushed := flushed v @ unflushed v\<rparr>)"
    and enterOutput: "0 < out_depth v \<Longrightarrow> yields view v (enterOutput prot) (Inr ()) (v\<lparr>out_depth := out_depth v - 1\<rparr>)"
    and enterOutput_limit: "out_depth v \<le> 0 \<Longrightarrow>
      yields view v (enterOutput prot) (Inl (Throw (TProtocolException DEPTH_LIMIT))) (v\<lparr>out_depth := out_depth v - 1\<rparr>)"
    and leaveOutput: "view (leaveOutput prot w) = (view w)\<lparr>out_depth := out_depth (view w) + 1\<rparr>"
    and appexn_write: "yields view v (appexn_write prot k m) (Inr ())
      (v\<lparr>unflushed := unflushed v @ [Exception_token k m]\<rparr>)"
begin

lemma tracker_out:
  assumes "0 < out_depth v" and "yields view (v\<lparr>out_depth := out_depth v - 1\<rparr>) body (Inr x) v'"
    and "out_depth v' = out_depth v - 1"
  shows "yields view v (TOutputRecursionTracker prot body) (Inr x) (v'\<lparr>out_depth := out_depth v\<rparr>)"
  unfolding TOutputRecursionTracker_def
  by (rule yields_seq [OF enterOutput [OF assms(1)] yields_finally [OF assms(2)]])
    (simp add: leaveOutput assms(3))

lemma tracker_out_limit:
  assumes "out_depth v \<le> 0"
  shows "yields view v (TOutputRecursionTracker prot body) (Inl (Throw (TProtocolException DEPTH_LIMIT)))
    (v\<lparr>out_depth := out_depth v - 1\<rparr>)"
  using enterOutput_limit [OF assms] unfolding TOutputRecursionTracker_def by (rule yields_seq_stop)

end

locale protocol = protocol_in + protocol_out

section \<open>A protocol over token lists\<close>

text \<open>
  An instance of the interface whose world is the view itself: a stream in memory. A read
  past the end of the stream throws, as when the peer has closed it, and so does a read of
  the wrong token.
\<close>

function skip_value :: "nat \<Rightarrow> ttype \<Rightarrow> token list \<Rightarrow> token list option"
  and skip_fields :: "nat \<Rightarrow> token list \<Rightarrow> token list option" where
  "skip_value 0 t ts = None"
| "skip_value (Suc n) t ts = (case (t, ts) of
     (T_I64, I64_token x # ts) \<Rightarrow> Some ts
   | (T_STRING, String_token s # ts) \<Rightarrow> Some ts
   | (T_other k, Other_token k' d c # ts) \<Rightarrow> if k = k' then Some ts else None
   | (T_STRUCT, Struct_begin # ts) \<Rightarrow> (case skip_fields n ts of
       Some (Struct_end # ts) \<Rightarrow> Some ts
     | _ \<Rightarrow> None)
   | _ \<Rightarrow> None)"
| "skip_fields 0 ts = None"
| "skip_fields (Suc n) ts = (case ts of
     Field_stop # ts \<Rightarrow> Some ts
   | Field_begin t i # ts \<Rightarrow> (case skip_value n t ts of
       Some (Field_end # ts) \<Rightarrow> skip_fields n ts
     | _ \<Rightarrow> None)
   | _ \<Rightarrow> None)"
  by pat_completeness auto
termination
  by (relation "measure (case_sum (\<lambda>(n, t, ts). n) (\<lambda>(n, ts). n))") auto

lemma skip_encode:
  "length (encode x) \<le> n \<Longrightarrow> skip_value n (type_of x) (encode x @ ts) = Some ts"
  "length (encode_fields fs) < n \<Longrightarrow> skip_fields n (encode_fields fs @ Field_stop # ts) = Some ts"
proof (induction x and fs arbitrary: n ts and n ts rule: encode_encode_fields.induct)
  case (1 x)
  then show ?case by (cases n) simp_all
next
  case (2 s)
  then show ?case by (cases n) simp_all
next
  case (3 t d k)
  then show ?case by (cases n) simp_all
next
  case (4 fs)
  then obtain n' where n: "n = Suc n'"
    by (cases n) simp_all
  with 4 show ?case
    using "4.IH" [of n' "Struct_end # ts"] by simp
next
  case 5
  then show ?case by (cases n) simp_all
next
  case (6 i v fs)
  then obtain n' where n: "n = Suc n'"
    by (cases n) simp_all
  with 6 show ?case
    using "6.IH"(1) [of n' "Field_end # encode_fields fs @ Field_stop # ts"] "6.IH"(2) [of n' ts]
    by simp
qed

definition take_token :: "(token \<Rightarrow> 'b option) \<Rightarrow> ('a port, 'b) prog" where
  "take_token f = (\<lambda>v. case incoming v of
     [] \<Rightarrow> Some (Inl (Throw (Library_exception ''TTransportException'')), v)
   | tok # ts \<Rightarrow> Some (case f tok of
       None \<Rightarrow> (Inl (Throw (TProtocolException INVALID_DATA)), v)
     | Some x \<Rightarrow> (Inr x, v\<lparr>incoming := ts\<rparr>)))"

definition put_token :: "(token \<Rightarrow> u32) \<Rightarrow> token \<Rightarrow> ('a port, u32) prog" where
  "put_token cost tok = seqP (modifyP (\<lambda>v. v\<lparr>unflushed := unflushed v @ [tok]\<rparr>)) (returnP (cost tok))"

definition put_unit :: "token \<Rightarrow> ('a port, unit) prog" where
  "put_unit tok = modifyP (\<lambda>v. v\<lparr>unflushed := unflushed v @ [tok]\<rparr>)"

definition enter_depth :: "('a port \<Rightarrow> int) \<Rightarrow> (int \<Rightarrow> 'a port \<Rightarrow> 'a port) \<Rightarrow> ('a port, unit) prog" where
  "enter_depth get put = (\<lambda>v. Some (
     if get v \<le> 0 then (Inl (Throw (TProtocolException DEPTH_LIMIT)), put (get v - 1) v)
     else (Inr (), put (get v - 1) v)))"

definition memory_protocol :: "(token \<Rightarrow> u32) \<Rightarrow> 'a port tprotocol" where
  "memory_protocol cost = \<lparr>
     readMessageBegin = take_token (\<lambda>tok. case tok of Message n t q \<Rightarrow> Some (n, t, q) | _ \<Rightarrow> None),
     readMessageEnd = take_token (\<lambda>tok. if tok = Message_end then Some () else None),
     readStructBegin = take_token (\<lambda>tok. if tok = Struct_begin then Some (cost tok) else None),
     readStructEnd = take_token (\<lambda>tok. if tok = Struct_end then Some (cost tok) else None),
     readFieldBegin = take_token (\<lambda>tok. case tok of
         Field_begin t i \<Rightarrow> Some (t, i, cost tok) | Field_stop \<Rightarrow> Some (T_STOP, 0, cost tok) | _ \<Rightarrow> None),
     readFieldEnd = take_token (\<lambda>tok. if tok = Field_end then Some (cost tok) else None),
     readI64 = take_token (\<lambda>tok. case tok of I64_token x \<Rightarrow> Some (x, cost tok) | _ \<Rightarrow> None),
     readString = take_token (\<lambda>tok. case tok of String_token s \<Rightarrow> Some (s, cost tok) | _ \<Rightarrow> None),
     skip = (\<lambda>t v. case skip_value (length (incoming v)) t (incoming v) of
         None \<Rightarrow> Some (Inl (Throw (TProtocolException INVALID_DATA)), v)
       | Some ts \<Rightarrow> Some (Inr (sum_list (map cost (take (length (incoming v) - length ts) (incoming v)))),
           v\<lparr>incoming := ts\<rparr>)),
     readEnd = returnP 0,
     enterInput = enter_depth in_depth (\<lambda>d v. v\<lparr>in_depth := d\<rparr>),
     leaveInput = (\<lambda>v. v\<lparr>in_depth := in_depth v + 1\<rparr>),
     appexn_read = take_token (\<lambda>tok. case tok of Exception_token k m \<Rightarrow> Some (k, m) | _ \<Rightarrow> None),
     writeMessageBegin = (\<lambda>n t q. put_unit (Message n t q)),
     writeMessageEnd = put_unit Message_end,
     writeStructBegin = (\<lambda>name. put_token cost Struct_begin),
     writeStructEnd = put_token cost Struct_end,
     writeFieldBegin = (\<lambda>name t i. put_token cost (Field_begin t i)),
     writeFieldEnd = put_token cost Field_end,
     writeFieldStop = put_token cost Field_stop,
     writeI64 = (\<lambda>x. put_token cost (I64_token x)),
     writeString = (\<lambda>s. put_token cost (String_token s)),
     writeEnd = returnP 0,
     flush = modifyP (\<lambda>v. v\<lparr>unflushed := [], flushed := flushed v @ unflushed v\<rparr>),
     enterOutput = enter_depth out_depth (\<lambda>d v. v\<lparr>out_depth := d\<rparr>),
     leaveOutput = (\<lambda>v. v\<lparr>out_depth := out_depth v + 1\<rparr>),
     appexn_write = (\<lambda>k m. put_unit (Exception_token k m))\<rparr>"

lemma yields_take_token:
  "incoming v = tok # ts \<Longrightarrow> f tok = Some x \<Longrightarrow> yields (\<lambda>w. w) v (take_token f) (Inr x) (v\<lparr>incoming := ts\<rparr>)"
  by (simp add: yields_def take_token_def)

lemma yields_skip_memory:
  assumes "incoming v = encode x @ ts"
  shows "yields (\<lambda>w. w) v (skip (memory_protocol cost) (type_of x))
    (Inr (sum_list (map cost (encode x)))) (v\<lparr>incoming := ts\<rparr>)"
  using skip_encode(1) [of x "length (encode x @ ts)" ts] assms
  by (simp add: yields_def memory_protocol_def)

lemma memory_protocol_in: "protocol_in (memory_protocol cost) (\<lambda>w. w) cost"
  by (rule protocol_in.intro; (rule yields_skip_memory, assumption)?)
    (auto simp: memory_protocol_def yields_def take_token_def enter_depth_def returnP_def)

lemma memory_protocol_out: "protocol_out (memory_protocol cost) (\<lambda>w. w) cost"
  by (rule protocol_out.intro)
    (auto simp: memory_protocol_def yields_def put_token_def put_unit_def enter_depth_def prog_defs)

interpretation memory: protocol "memory_protocol cost" "\<lambda>w. w" cost for cost :: "token \<Rightarrow> u32"
  by (intro protocol.intro memory_protocol_in memory_protocol_out)

end
