(* ===== verification/Thrift_Wire.thy ===== *)
theory Thrift_Wire
  imports Thrift_Types Wire
begin

text \<open>
  \<open>thrift-bench/gen-cpp\<close>: the generated readers and writers of \<open>timing\<close>
  (\<open>timing_types.cpp\<close>) and of the argument and result structs of the call \<open>bench\<close>
  (\<open>Bench.cpp\<close>, \<open>Bench.h\<close>), over any protocol object. Reading is related to the fields on the
  wire in any order, with unknown, ill-typed and repeated ones; writing is its inverse.
\<close>

section \<open>Reading a struct\<close>

text \<open>
  The frame the four generated \<open>read\<close> methods share: the recursion tracker, the loop over
  the fields until the stop field, and the byte count \<open>xfer\<close>. \<open>cases\<close> is the method's
  switch on the field's number. An exception leaves the method and its object, which its
  callers drop: the partly read object is not kept.
\<close>

definition read_field ::
    "'w tprotocol \<Rightarrow> (ttype \<Rightarrow> int16 \<Rightarrow> 's \<Rightarrow> ('w, 's \<times> u32) prog) \<Rightarrow> 's \<times> u32 \<Rightarrow> ('w, ('s \<times> u32, 's \<times> u32) ctl) prog" where
  "read_field iprot cases = (\<lambda>(this, xfer).
     bindP (readFieldBegin iprot) (\<lambda>(ftype, fid, n).
     let xfer = xfer + n in
     if ftype = T_STOP then returnP (Break (this, xfer))
     else bindP (cases ftype fid this) (\<lambda>(this, n).
       let xfer = xfer + n in
       bindP (readFieldEnd iprot) (\<lambda>n.
       returnP (Continue (this, xfer + n))))))"

definition read_struct ::
    "'w tprotocol \<Rightarrow> (ttype \<Rightarrow> int16 \<Rightarrow> 's \<Rightarrow> ('w, 's \<times> u32) prog) \<Rightarrow> 's \<Rightarrow> ('w, 's \<times> u32) prog" where
  "read_struct iprot cases this =
     TInputRecursionTracker iprot (
     let xfer = 0 in
     bindP (readStructBegin iprot) (\<lambda>n.
     let xfer = xfer + n in
     bindP (loopP (read_field iprot cases) (this, xfer)) (\<lambda>(this, xfer).
     bindP (readStructEnd iprot) (\<lambda>n.
     returnP (this, xfer + n)))))"

text \<open>The default of every switch, and of every case whose type does not match.\<close>

definition skip_field :: "'w tprotocol \<Rightarrow> ttype \<Rightarrow> 's \<Rightarrow> ('w, 's \<times> u32) prog" where
  "skip_field iprot ftype this = bindP (skip iprot ftype) (\<lambda>n. returnP (this, n))"

definition costs :: "(token \<Rightarrow> u32) \<Rightarrow> token list \<Rightarrow> u32" where
  "costs cost ts = sum_list (map cost ts)"

lemma costs_simps [simp]:
  "costs cost [] = 0" "costs cost (t # ts) = cost t + costs cost ts"
  "costs cost (ts @ us) = costs cost ts + costs cost us"
  by (simp_all add: costs_def)

context protocol_in
begin

lemma skip_field_yields:
  assumes "incoming v = encode x @ ts" and "levels x \<le> in_depth v"
  shows "yields view v (skip_field prot (type_of x) this) (Inr (this, costs cost (encode x))) (v\<lparr>incoming := ts\<rparr>)"
  unfolding skip_field_def costs_def
  by (rule yields_bind [OF skip [OF assms]]) (rule yields_return)

text \<open>
  A switch handles fields by \<open>upd\<close> when on every field it consumes the field's value and
  changes the object as \<open>upd\<close> says. Then the loop does so for all fields, in their order.
\<close>

definition handles :: "(ttype \<Rightarrow> int16 \<Rightarrow> 's \<Rightarrow> ('w, 's \<times> u32) prog) \<Rightarrow> (int16 \<times> val \<Rightarrow> 's \<Rightarrow> 's) \<Rightarrow> bool" where
  "handles cases upd \<longleftrightarrow> (\<forall>v i x ts this. incoming v = encode x @ ts \<longrightarrow> levels x \<le> in_depth v \<longrightarrow>
     yields view v (cases (type_of x) i this) (Inr (upd (i, x) this, costs cost (encode x))) (v\<lparr>incoming := ts\<rparr>))"

lemma handlesD:
  "handles cases upd \<Longrightarrow> incoming v = encode x @ ts \<Longrightarrow> levels x \<le> in_depth v \<Longrightarrow>
     yields view v (cases (type_of x) i this) (Inr (upd (i, x) this, costs cost (encode x))) (v\<lparr>incoming := ts\<rparr>)"
  by (simp add: handles_def)

lemma read_field_stop:
  assumes "incoming v = Field_stop # ts"
  shows "yields view v (read_field prot cases (this, xfer)) (Inr (Break (this, xfer + cost Field_stop)))
     (v\<lparr>incoming := ts\<rparr>)"
proof -
  obtain i where "yields view v (readFieldBegin prot) (Inr (T_STOP, i, cost Field_stop)) (v\<lparr>incoming := ts\<rparr>)"
    using readFieldStop [OF assms] by auto
  then show ?thesis
    unfolding read_field_def split Let_def by (rule yields_bind) (simp add: yields_return)
qed

lemma read_field_value:
  assumes "handles cases upd" and "levels x \<le> in_depth v"
    and "incoming v = Field_begin (type_of x) i # encode x @ Field_end # ts"
  shows "yields view v (read_field prot cases (this, xfer))
     (Inr (Continue (upd (i, x) this, xfer + cost (Field_begin (type_of x) i) + costs cost (encode x) + cost Field_end)))
     (v\<lparr>incoming := ts\<rparr>)"
proof -
  let ?v1 = "v\<lparr>incoming := encode x @ Field_end # ts\<rparr>" and ?v2 = "v\<lparr>incoming := Field_end # ts\<rparr>"
  have b: "yields view v (readFieldBegin prot) (Inr (type_of x, i, cost (Field_begin (type_of x) i))) ?v1"
    using assms(3) by (rule readFieldBegin)
  have c: "yields view ?v1 (cases (type_of x) i this) (Inr (upd (i, x) this, costs cost (encode x))) ?v2"
    using handlesD [OF assms(1), of ?v1 x "Field_end # ts"] assms(2) by simp
  have e: "yields view ?v2 (readFieldEnd prot) (Inr (cost Field_end)) (v\<lparr>incoming := ts\<rparr>)"
    using readFieldEnd [of ?v2] by simp
  show ?thesis
    unfolding read_field_def split Let_def
    by (rule yields_bind [OF b], unfold split, simp only: type_of_STOP if_False,
        rule yields_bind [OF c], unfold split, rule yields_bind [OF e], rule yields_return)
qed

lemma read_fields_loop:
  assumes "handles cases upd"
    and "incoming v = encode_fields fs @ Field_stop # ts" and "levels_fields fs \<le> in_depth v"
  shows "yields view v (loopP (read_field prot cases) (this, xfer))
     (Inr (fold upd fs this, xfer + costs cost (encode_fields fs) + cost Field_stop)) (v\<lparr>incoming := ts\<rparr>)"
  using assms(2,3)
proof (induction fs arbitrary: v this xfer)
  case Nil
  then show ?case
    by (intro yields_loop_break) (simp add: read_field_stop)
next
  case (Cons f fs)
  obtain i x where f: "f = (i, x)"
    by (cases f)
  let ?us = "encode_fields fs @ Field_stop # ts"
  let ?xfer = "xfer + cost (Field_begin (type_of x) i) + costs cost (encode x) + cost Field_end"
  have "yields view v (read_field prot cases (this, xfer)) (Inr (Continue (upd (i, x) this, ?xfer)))
      (v\<lparr>incoming := ?us\<rparr>)"
    using assms(1) Cons.prems by (intro read_field_value) (simp_all add: f)
  moreover have "yields view (v\<lparr>incoming := ?us\<rparr>) (loopP (read_field prot cases) (upd (i, x) this, ?xfer))
      (Inr (fold upd fs (upd (i, x) this), ?xfer + costs cost (encode_fields fs) + cost Field_stop)) (v\<lparr>incoming := ts\<rparr>)"
    using Cons.IH [of "v\<lparr>incoming := ?us\<rparr>"] Cons.prems by (simp add: f)
  ultimately show ?case
    using yields_loop_continue by (fastforce simp: f add.assoc)
qed

lemma read_struct_yields:
  assumes "handles cases upd"
    and "incoming v = encode (VStruct fs) @ ts" and "levels (VStruct fs) \<le> in_depth v"
  shows "yields view v (read_struct prot cases this)
     (Inr (fold upd fs this, costs cost (encode (VStruct fs)))) (v\<lparr>incoming := ts\<rparr>)"
proof -
  have d: "0 < in_depth v"
    using assms(3) levels_bounds(2) [of fs] unfolding levels.simps by linarith
  let ?v = "v\<lparr>in_depth := in_depth v - 1\<rparr>"
  let ?v1 = "?v\<lparr>incoming := encode_fields fs @ Field_stop # Struct_end # ts\<rparr>" and ?v2 = "?v\<lparr>incoming := Struct_end # ts\<rparr>"
  let ?xfer = "0 + cost Struct_begin"
  have b: "yields view ?v (readStructBegin prot) (Inr (cost Struct_begin)) ?v1"
    using assms(2) by (intro readStructBegin) simp
  have l: "yields view ?v1 (loopP (read_field prot cases) (this, ?xfer))
      (Inr (fold upd fs this, ?xfer + costs cost (encode_fields fs) + cost Field_stop)) ?v2"
    using read_fields_loop [OF assms(1), of ?v1 fs "Struct_end # ts"] assms(3) by simp
  have e: "yields view ?v2 (readStructEnd prot) (Inr (cost Struct_end)) (?v\<lparr>incoming := ts\<rparr>)"
    using readStructEnd [of ?v2] by simp
  have "yields view ?v (let xfer = 0 in bindP (readStructBegin prot) (\<lambda>n. let xfer = xfer + n in
     bindP (loopP (read_field prot cases) (this, xfer)) (\<lambda>(this, xfer).
     bindP (readStructEnd prot) (\<lambda>n. returnP (this, xfer + n)))))
     (Inr (fold upd fs this, ?xfer + costs cost (encode_fields fs) + cost Field_stop + cost Struct_end)) (?v\<lparr>incoming := ts\<rparr>)"
    unfolding Let_def
    by (rule yields_bind [OF b], rule yields_bind [OF l], unfold split, rule yields_bind [OF e], rule yields_return)
  from tracker [OF d this] have "yields view v (read_struct prot cases this)
     (Inr (fold upd fs this, ?xfer + costs cost (encode_fields fs) + cost Field_stop + cost Struct_end))
     (?v\<lparr>incoming := ts, in_depth := in_depth v\<rparr>)"
    by (simp add: read_struct_def)
  moreover have "?v\<lparr>incoming := ts, in_depth := in_depth v\<rparr> = v\<lparr>incoming := ts\<rparr>"
    by (cases v) simp
  ultimately show ?thesis
    by (simp add: add.assoc)
qed

lemma read_struct_limit:
  assumes "in_depth v \<le> 0"
  shows "yields view v (read_struct prot cases this) (Inl (Throw (TProtocolException DEPTH_LIMIT)))
    (v\<lparr>in_depth := in_depth v - 1\<rparr>)"
  unfolding read_struct_def using assms by (rule tracker_limit)

end

section \<open>The readers\<close>

definition timing_cases :: "'w tprotocol \<Rightarrow> ttype \<Rightarrow> int16 \<Rightarrow> timing \<Rightarrow> ('w, timing \<times> u32) prog" where
  "timing_cases iprot ftype fid this =
     (if fid = 1 then
        if ftype = T_I64 then
          bindP (readI64 iprot) (\<lambda>(x, n).
          returnP (this\<lparr>msgid := x, isset := (isset this)\<lparr>isset_msgid := True\<rparr>\<rparr>, n))
        else skip_field iprot ftype this
      else if fid = 2 then
        if ftype = T_I64 then
          bindP (readI64 iprot) (\<lambda>(x, n).
          returnP (this\<lparr>nanosec := x, isset := (isset this)\<lparr>isset_nanosec := True\<rparr>\<rparr>, n))
        else skip_field iprot ftype this
      else if fid = 3 then
        if ftype = T_STRING then
          bindP (readString iprot) (\<lambda>(s, n).
          returnP (this\<lparr>source := s, isset := (isset this)\<lparr>isset_source := True\<rparr>\<rparr>, n))
        else skip_field iprot ftype this
      else skip_field iprot ftype this)"

definition timing_read :: "'w tprotocol \<Rightarrow> timing \<Rightarrow> ('w, timing \<times> u32) prog" where
  "timing_read iprot this = read_struct iprot (timing_cases iprot) this"

text \<open>\<open>Bench_bench_args\<close> and \<open>Bench_bench_result\<close>, with their presence flags.\<close>

record Bench_bench_args =
  args_arg :: timing
  args_isset_arg :: bool

definition Bench_bench_args_ctor :: Bench_bench_args where
  "Bench_bench_args_ctor = \<lparr>args_arg = timing_ctor, args_isset_arg = False\<rparr>"

record Bench_bench_result =
  success :: int64
  result_isset_success :: bool

definition Bench_bench_result_ctor :: Bench_bench_result where
  "Bench_bench_result_ctor = \<lparr>success = i64 0, result_isset_success = False\<rparr>"

text \<open>
  \<open>Bench_bench_presult\<close> points to the variable the result goes to; \<open>presult_success\<close> is
  that variable, \<open>None\<close> while it has not been initialised.
\<close>

record Bench_bench_presult =
  presult_success :: "int64 option"
  presult_isset_success :: bool

definition Bench_bench_presult_ctor :: Bench_bench_presult where
  "Bench_bench_presult_ctor = \<lparr>presult_success = None, presult_isset_success = False\<rparr>"

definition args_eq :: "Bench_bench_args \<Rightarrow> Bench_bench_args \<Rightarrow> bool" where
  "args_eq this rhs = (if \<not> timing_eq (args_arg this) (args_arg rhs) then False else True)"

definition result_eq :: "Bench_bench_result \<Rightarrow> Bench_bench_result \<Rightarrow> bool" where
  "result_eq this rhs = (if \<not> (success this = success rhs) then False else True)"

definition args_neq :: "Bench_bench_args \<Rightarrow> Bench_bench_args \<Rightarrow> bool" where
  "args_neq this rhs = (\<not> args_eq this rhs)"

definition result_neq :: "Bench_bench_result \<Rightarrow> Bench_bench_result \<Rightarrow> bool" where
  "result_neq this rhs = (\<not> result_eq this rhs)"

definition args_cases :: "'w tprotocol \<Rightarrow> ttype \<Rightarrow> int16 \<Rightarrow> Bench_bench_args \<Rightarrow> ('w, Bench_bench_args \<times> u32) prog" where
  "args_cases iprot ftype fid this =
     (if fid = 1 then
        if ftype = T_STRUCT then
          bindP (timing_read iprot (args_arg this)) (\<lambda>(t, n).
          returnP (this\<lparr>args_arg := t, args_isset_arg := True\<rparr>, n))
        else skip_field iprot ftype this
      else skip_field iprot ftype this)"

definition Bench_bench_args_read :: "'w tprotocol \<Rightarrow> Bench_bench_args \<Rightarrow> ('w, Bench_bench_args \<times> u32) prog" where
  "Bench_bench_args_read iprot this = read_struct iprot (args_cases iprot) this"

definition result_cases :: "'w tprotocol \<Rightarrow> ttype \<Rightarrow> int16 \<Rightarrow> Bench_bench_result \<Rightarrow> ('w, Bench_bench_result \<times> u32) prog" where
  "result_cases iprot ftype fid this =
     (if fid = 0 then
        if ftype = T_I64 then
          bindP (readI64 iprot) (\<lambda>(x, n).
          returnP (this\<lparr>success := x, result_isset_success := True\<rparr>, n))
        else skip_field iprot ftype this
      else skip_field iprot ftype this)"

definition Bench_bench_result_read :: "'w tprotocol \<Rightarrow> Bench_bench_result \<Rightarrow> ('w, Bench_bench_result \<times> u32) prog" where
  "Bench_bench_result_read iprot this = read_struct iprot (result_cases iprot) this"

definition presult_cases :: "'w tprotocol \<Rightarrow> ttype \<Rightarrow> int16 \<Rightarrow> Bench_bench_presult \<Rightarrow> ('w, Bench_bench_presult \<times> u32) prog" where
  "presult_cases iprot ftype fid this =
     (if fid = 0 then
        if ftype = T_I64 then
          bindP (readI64 iprot) (\<lambda>(x, n).
          returnP (this\<lparr>presult_success := Some x, presult_isset_success := True\<rparr>, n))
        else skip_field iprot ftype this
      else skip_field iprot ftype this)"

definition Bench_bench_presult_read :: "'w tprotocol \<Rightarrow> Bench_bench_presult \<Rightarrow> ('w, Bench_bench_presult \<times> u32) prog" where
  "Bench_bench_presult_read iprot this = read_struct iprot (presult_cases iprot) this"

subsection \<open>What they read\<close>

text \<open>The effect of one field on the object: the reference behaviour of each switch.\<close>

fun timing_field :: "int16 \<times> val \<Rightarrow> timing \<Rightarrow> timing" where
  "timing_field (i, VI64 x) t =
     (if i = 1 then t\<lparr>msgid := x, isset := (isset t)\<lparr>isset_msgid := True\<rparr>\<rparr>
      else if i = 2 then t\<lparr>nanosec := x, isset := (isset t)\<lparr>isset_nanosec := True\<rparr>\<rparr> else t)"
| "timing_field (i, VString s) t =
     (if i = 3 then t\<lparr>source := s, isset := (isset t)\<lparr>isset_source := True\<rparr>\<rparr> else t)"
| "timing_field (i, _) t = t"

fun args_field :: "int16 \<times> val \<Rightarrow> Bench_bench_args \<Rightarrow> Bench_bench_args" where
  "args_field (i, VStruct fs) a =
     (if i = 1 then a\<lparr>args_arg := fold timing_field fs (args_arg a), args_isset_arg := True\<rparr> else a)"
| "args_field (i, _) a = a"

fun result_field :: "int16 \<times> val \<Rightarrow> Bench_bench_result \<Rightarrow> Bench_bench_result" where
  "result_field (i, VI64 x) r = (if i = 0 then r\<lparr>success := x, result_isset_success := True\<rparr> else r)"
| "result_field (i, _) r = r"

fun presult_field :: "int16 \<times> val \<Rightarrow> Bench_bench_presult \<Rightarrow> Bench_bench_presult" where
  "presult_field (i, VI64 x) r = (if i = 0 then r\<lparr>presult_success := Some x, presult_isset_success := True\<rparr> else r)"
| "presult_field (i, _) r = r"

context protocol_in
begin

lemma readI64_value:
  assumes "incoming v = I64_token x # ts" and "y = f x"
  shows "yields view v (bindP (readI64 prot) (\<lambda>(x, n). returnP (f x, n)))
    (Inr (y, cost (I64_token x))) (v\<lparr>incoming := ts\<rparr>)"
  using readI64 [of v x ts] assms by (intro yields_bind) (auto simp: yields_return)

lemma readString_value:
  assumes "incoming v = String_token s # ts" and "y = f s"
  shows "yields view v (bindP (readString prot) (\<lambda>(s, n). returnP (f s, n)))
    (Inr (y, cost (String_token s))) (v\<lparr>incoming := ts\<rparr>)"
  using readString [of v s ts] assms by (intro yields_bind) (auto simp: yields_return)

lemma handlesI:
  assumes "\<And>v i x ts this. incoming v = encode x @ ts \<Longrightarrow> levels x \<le> in_depth v \<Longrightarrow>
    yields view v (cases (type_of x) i this) (Inr (upd (i, x) this, costs cost (encode x))) (v\<lparr>incoming := ts\<rparr>)"
  shows "handles cases upd"
  using assms by (simp add: handles_def)

lemma handles_timing: "handles (timing_cases prot) timing_field"
proof (rule handlesI)
  fix v :: "'a port" and i x ts this
  assume x: "incoming v = encode x @ ts" "levels x \<le> in_depth v"
  show "yields view v (timing_cases prot (type_of x) i this) (Inr (timing_field (i, x) this, costs cost (encode x)))
      (v\<lparr>incoming := ts\<rparr>)"
    using x skip_field_yields [OF x, of this]
    by (cases x) (auto simp: timing_cases_def intro!: readI64_value readString_value)
qed

lemma timing_read_yields:
  assumes "incoming v = encode (VStruct fs) @ ts" and "levels (VStruct fs) \<le> in_depth v"
  shows "yields view v (timing_read prot this)
    (Inr (fold timing_field fs this, costs cost (encode (VStruct fs)))) (v\<lparr>incoming := ts\<rparr>)"
  unfolding timing_read_def using handles_timing assms by (rule read_struct_yields)

lemma handles_result: "handles (result_cases prot) result_field"
proof (rule handlesI)
  fix v :: "'a port" and i x ts this
  assume x: "incoming v = encode x @ ts" "levels x \<le> in_depth v"
  show "yields view v (result_cases prot (type_of x) i this) (Inr (result_field (i, x) this, costs cost (encode x)))
      (v\<lparr>incoming := ts\<rparr>)"
    using x skip_field_yields [OF x, of this]
    by (cases x) (auto simp: result_cases_def intro!: readI64_value)
qed

lemma handles_presult: "handles (presult_cases prot) presult_field"
proof (rule handlesI)
  fix v :: "'a port" and i x ts this
  assume x: "incoming v = encode x @ ts" "levels x \<le> in_depth v"
  show "yields view v (presult_cases prot (type_of x) i this) (Inr (presult_field (i, x) this, costs cost (encode x)))
      (v\<lparr>incoming := ts\<rparr>)"
    using x skip_field_yields [OF x, of this]
    by (cases x) (auto simp: presult_cases_def intro!: readI64_value)
qed

lemma handles_args: "handles (args_cases prot) args_field"
proof (rule handlesI)
  fix v :: "'a port" and i x ts this
  assume x: "incoming v = encode x @ ts" "levels x \<le> in_depth v"
  show "yields view v (args_cases prot (type_of x) i this) (Inr (args_field (i, x) this, costs cost (encode x)))
      (v\<lparr>incoming := ts\<rparr>)"
  proof (cases x)
    case (VStruct fs)
    have t: "yields view v (timing_read prot (args_arg this))
        (Inr (fold timing_field fs (args_arg this), costs cost (encode x))) (v\<lparr>incoming := ts\<rparr>)"
      using timing_read_yields x by (simp only: VStruct)
    have "yields view v (bindP (timing_read prot (args_arg this)) (\<lambda>(t, n).
          returnP (this\<lparr>args_arg := t, args_isset_arg := True\<rparr>, n)))
        (Inr (this\<lparr>args_arg := fold timing_field fs (args_arg this), args_isset_arg := True\<rparr>, costs cost (encode x)))
        (v\<lparr>incoming := ts\<rparr>)"
      by (rule yields_bind [OF t], unfold split, rule yields_return)
    then show ?thesis
      using skip_field_yields [OF x, of this] by (auto simp: args_cases_def VStruct)
  qed (use x skip_field_yields [OF x, of this] in \<open>auto simp: args_cases_def\<close>)
qed

lemmas Bench_bench_args_read_yields = read_struct_yields [OF handles_args, folded Bench_bench_args_read_def]
  and Bench_bench_result_read_yields = read_struct_yields [OF handles_result, folded Bench_bench_result_read_def]
  and Bench_bench_presult_read_yields = read_struct_yields [OF handles_presult, folded Bench_bench_presult_read_def]

end

section \<open>The writers\<close>

text \<open>\<open>xfer += call\<close> for each call in turn.\<close>

fun xfer_calls :: "('w, u32) prog list \<Rightarrow> u32 \<Rightarrow> ('w, u32) prog" where
  "xfer_calls [] xfer = returnP xfer"
| "xfer_calls (m # ms) xfer = bindP m (\<lambda>n. xfer_calls ms (xfer + n))"

definition timing_write :: "'w tprotocol \<Rightarrow> timing \<Rightarrow> ('w, u32) prog" where
  "timing_write oprot this =
     TOutputRecursionTracker oprot (xfer_calls [
       writeStructBegin oprot ''timing'',
       writeFieldBegin oprot ''msgid'' T_I64 1,
       writeI64 oprot (msgid this),
       writeFieldEnd oprot,
       writeFieldBegin oprot ''nanosec'' T_I64 2,
       writeI64 oprot (nanosec this),
       writeFieldEnd oprot,
       writeFieldBegin oprot ''source'' T_STRING 3,
       writeString oprot (source this),
       writeFieldEnd oprot,
       writeFieldStop oprot,
       writeStructEnd oprot] 0)"

definition Bench_bench_args_write :: "'w tprotocol \<Rightarrow> Bench_bench_args \<Rightarrow> ('w, u32) prog" where
  "Bench_bench_args_write oprot this =
     TOutputRecursionTracker oprot (xfer_calls [
       writeStructBegin oprot ''Bench_bench_args'',
       writeFieldBegin oprot ''arg'' T_STRUCT 1,
       timing_write oprot (args_arg this),
       writeFieldEnd oprot,
       writeFieldStop oprot,
       writeStructEnd oprot] 0)"

text \<open>\<open>Bench_bench_pargs\<close> points to the argument.\<close>

record Bench_bench_pargs =
  pargs_arg :: timing

definition Bench_bench_pargs_write :: "'w tprotocol \<Rightarrow> Bench_bench_pargs \<Rightarrow> ('w, u32) prog" where
  "Bench_bench_pargs_write oprot this =
     TOutputRecursionTracker oprot (xfer_calls [
       writeStructBegin oprot ''Bench_bench_pargs'',
       writeFieldBegin oprot ''arg'' T_STRUCT 1,
       timing_write oprot (pargs_arg this),
       writeFieldEnd oprot,
       writeFieldStop oprot,
       writeStructEnd oprot] 0)"

text \<open>The result's writer has no recursion tracker.\<close>

definition Bench_bench_result_write :: "'w tprotocol \<Rightarrow> Bench_bench_result \<Rightarrow> ('w, u32) prog" where
  "Bench_bench_result_write oprot this =
     xfer_calls ([writeStructBegin oprot ''Bench_bench_result''] @
       (if result_isset_success this then
          [writeFieldBegin oprot ''success'' T_I64 0,
           writeI64 oprot (success this),
           writeFieldEnd oprot]
        else []) @
       [writeFieldStop oprot,
        writeStructEnd oprot]) 0"

subsection \<open>What they write\<close>

definition timing_value :: "timing \<Rightarrow> val" where
  "timing_value t = VStruct [(1, VI64 (msgid t)), (2, VI64 (nanosec t)), (3, VString (source t))]"

definition args_value :: "timing \<Rightarrow> val" where
  "args_value t = VStruct [(1, timing_value t)]"

definition result_value :: "Bench_bench_result \<Rightarrow> val" where
  "result_value r = VStruct (if result_isset_success r then [(0, VI64 (success r))] else [])"

text \<open>What a peer reads back: the members, and the flags of those that were on the wire.\<close>

definition timing_all_set :: "timing \<Rightarrow> timing" where
  "timing_all_set t = t\<lparr>isset := \<lparr>isset_msgid = True, isset_nanosec = True, isset_source = True\<rparr>\<rparr>"

lemma fold_timing_value:
  "timing_value t = VStruct fs \<Longrightarrow> fold timing_field fs this = timing_all_set t"
  by (cases t, cases this) (auto simp: timing_value_def timing_all_set_def)

lemma fold_args_value:
  "args_value t = VStruct fs \<Longrightarrow> fold args_field fs this = \<lparr>args_arg = timing_all_set t, args_isset_arg = True\<rparr>"
  using fold_timing_value [of t _ "args_arg this"]
  by (cases this) (auto simp: args_value_def timing_value_def)

lemma levels_values [simp]:
  "levels (timing_value t) = 2" "levels (args_value t) = 3" "levels (result_value r) \<le> 2"
  by (auto simp: timing_value_def args_value_def result_value_def)

lemma type_of_timing_value [simp]: "type_of (timing_value t) = T_STRUCT"
  by (simp add: timing_value_def)

context protocol_out
begin

text \<open>
  A call that writes the tokens \<open>ts\<close>, when at least \<open>d\<close> levels of depth are left.
\<close>

definition writes :: "int \<Rightarrow> ('w, u32) prog \<Rightarrow> token list \<Rightarrow> bool" where
  "writes d m ts \<longleftrightarrow> (\<forall>v. d \<le> out_depth v \<longrightarrow>
     yields view v m (Inr (costs cost ts)) (v\<lparr>unflushed := unflushed v @ ts\<rparr>))"

lemma writesD:
  "writes d m ts \<Longrightarrow> d \<le> out_depth v \<Longrightarrow>
     yields view v m (Inr (costs cost ts)) (v\<lparr>unflushed := unflushed v @ ts\<rparr>)"
  by (simp add: writes_def)

lemma writes_calls [intro]:
  "writes d (writeStructBegin prot name) [Struct_begin]" "writes d (writeStructEnd prot) [Struct_end]"
  "t \<noteq> T_STOP \<Longrightarrow> writes d (writeFieldBegin prot name t i) [Field_begin t i]"
  "writes d (writeFieldEnd prot) [Field_end]" "writes d (writeFieldStop prot) [Field_stop]"
  "writes d (writeI64 prot x) [I64_token x]" "writes d (writeString prot s) [String_token s]"
  by (simp_all add: writes_def writeStructBegin writeStructEnd writeFieldBegin writeFieldEnd
      writeFieldStop writeI64 writeString)

lemma writes_mono: "writes d m ts \<Longrightarrow> d \<le> e \<Longrightarrow> writes e m ts"
  by (auto simp: writes_def)

lemma writes_xfer_calls:
  assumes "list_all2 (writes d) ms tss" and "d \<le> out_depth v"
  shows "yields view v (xfer_calls ms xfer) (Inr (xfer + costs cost (concat tss)))
    (v\<lparr>unflushed := unflushed v @ concat tss\<rparr>)"
  using assms
proof (induction ms arbitrary: tss v xfer)
  case Nil
  then show ?case
    by (simp add: yields_return)
next
  case (Cons m ms)
  then obtain ts tss' where tss: "tss = ts # tss'" and m: "writes d m ts" and ms: "list_all2 (writes d) ms tss'"
    by (auto simp: list_all2_Cons1)
  let ?v = "v\<lparr>unflushed := unflushed v @ ts\<rparr>"
  have "yields view v m (Inr (costs cost ts)) ?v"
    using m Cons.prems(2) by (simp add: writes_def)
  moreover have "yields view ?v (xfer_calls ms (xfer + costs cost ts))
      (Inr (xfer + costs cost ts + costs cost (concat tss'))) (?v\<lparr>unflushed := unflushed ?v @ concat tss'\<rparr>)"
    using Cons.prems(2) by (intro Cons.IH [OF ms]) simp
  ultimately show ?case
    unfolding xfer_calls.simps tss by (intro yields_bind) (simp_all add: add.assoc)
qed

lemma writes_tracker:
  assumes "list_all2 (writes d) ms tss" and "ts = concat tss" and "0 \<le> d"
  shows "writes (d + 1) (TOutputRecursionTracker prot (xfer_calls ms 0)) ts"
  unfolding writes_def
proof (intro allI impI)
  fix v :: "'a port"
  assume d: "d + 1 \<le> out_depth v"
  then have e: "0 < out_depth v"
    using assms(3) by simp
  let ?v = "v\<lparr>out_depth := out_depth v - 1\<rparr>"
  have "yields view ?v (xfer_calls ms 0) (Inr (0 + costs cost (concat tss))) (?v\<lparr>unflushed := unflushed ?v @ concat tss\<rparr>)"
    using assms(1) d by (intro writes_xfer_calls) (assumption, simp)
  from tracker_out [OF e this] have "yields view v (TOutputRecursionTracker prot (xfer_calls ms 0))
      (Inr (costs cost ts)) (?v\<lparr>unflushed := unflushed v @ ts, out_depth := out_depth v\<rparr>)"
    by (simp add: assms(2))
  moreover have "?v\<lparr>unflushed := unflushed v @ ts, out_depth := out_depth v\<rparr> = v\<lparr>unflushed := unflushed v @ ts\<rparr>"
    by (cases v) simp
  ultimately show "yields view v (TOutputRecursionTracker prot (xfer_calls ms 0))
      (Inr (costs cost ts)) (v\<lparr>unflushed := unflushed v @ ts\<rparr>)"
    by simp
qed

lemma timing_write_writes: "writes 1 (timing_write prot t) (encode (timing_value t))"
  unfolding timing_write_def
  by (rule writes_tracker [where d = 0, unfolded add_0, where tss = "[[Struct_begin], [Field_begin T_I64 1], [I64_token (msgid t)], [Field_end],
        [Field_begin T_I64 2], [I64_token (nanosec t)], [Field_end],
        [Field_begin T_STRING 3], [String_token (source t)], [Field_end], [Field_stop], [Struct_end]]"])
    (auto simp: timing_value_def)

lemma arg_writes:
  "list_all2 (writes 1) [writeStructBegin prot name, writeFieldBegin prot ''arg'' T_STRUCT 1,
       timing_write prot t, writeFieldEnd prot, writeFieldStop prot, writeStructEnd prot]
     [[Struct_begin], [Field_begin T_STRUCT 1], encode (timing_value t), [Field_end], [Field_stop], [Struct_end]]"
  by (auto intro: timing_write_writes)

lemma Bench_bench_args_write_writes:
  "writes 2 (Bench_bench_args_write prot a) (encode (args_value (args_arg a)))"
  unfolding Bench_bench_args_write_def
  by (rule writes_tracker [where d = 1, unfolded one_add_one, OF arg_writes]) (simp_all add: args_value_def)

lemma Bench_bench_pargs_write_writes:
  "writes 2 (Bench_bench_pargs_write prot a) (encode (args_value (pargs_arg a)))"
  unfolding Bench_bench_pargs_write_def
  by (rule writes_tracker [where d = 1, unfolded one_add_one, OF arg_writes]) (simp_all add: args_value_def)

lemma Bench_bench_result_write_writes: "writes d (Bench_bench_result_write prot r) (encode (result_value r))"
proof -
  let ?tss = "[[Struct_begin]] @ (if result_isset_success r then [[Field_begin T_I64 0], [I64_token (success r)], [Field_end]] else []) @
    [[Field_stop], [Struct_end]]"
  have "yields view v (Bench_bench_result_write prot r) (Inr (0 + costs cost (concat ?tss)))
      (v\<lparr>unflushed := unflushed v @ concat ?tss\<rparr>)" for v
    unfolding Bench_bench_result_write_def by (rule writes_xfer_calls [where d = "out_depth v"]) auto
  then have "yields view v (Bench_bench_result_write prot r) (Inr (costs cost (concat ?tss)))
      (v\<lparr>unflushed := unflushed v @ concat ?tss\<rparr>)" for v
    by simp
  moreover have "encode (result_value r) = concat ?tss"
    by (simp add: result_value_def)
  ultimately show ?thesis
    unfolding writes_def by simp
qed

lemma result_write_anyway:
  "yields view v (Bench_bench_result_write prot r) (Inr (costs cost (encode (result_value r))))
    (v\<lparr>unflushed := unflushed v @ encode (result_value r)\<rparr>)"
  using writesD [OF Bench_bench_result_write_writes order_refl] .

end

section \<open>Properties\<close>

text \<open>A protocol over token lists that counts one byte per token, for the witnesses.\<close>

definition unit_cost :: "token \<Rightarrow> u32" where
  "unit_cost tok = 1"

definition port_with :: "token list \<Rightarrow> unit port" where
  "port_with ts = \<lparr>incoming = ts, unflushed = [], flushed = [], in_depth = 64, out_depth = 64, app = ()\<rparr>"

lemma port_with_simps [simp]:
  "incoming (port_with ts) = ts" "unflushed (port_with ts) = []" "flushed (port_with ts) = []"
  "in_depth (port_with ts) = 64" "out_depth (port_with ts) = 64"
  "(port_with ts)\<lparr>incoming := us\<rparr> = port_with us"
  by (simp_all add: port_with_def)

text \<open>
  C33: \<open>timing::read\<close> on a struct with any fields, over any protocol that keeps the laws and
  has the depth: it consumes exactly the struct, and the object it leaves is the one got by
  applying the fields in their order. A field of a known number and type sets its member
  and flag, every other field is skipped, and of repeated fields the last one counts. The
  returned count is the sum of what the calls reported, modulo \<open>2^32\<close>.
\<close>

theorem timing_read_spec:
  assumes "protocol_in prot view cost"
    and "incoming v = encode (VStruct fs) @ ts" and "levels (VStruct fs) \<le> in_depth v"
  shows "yields view v (timing_read prot this)
    (Inr (fold timing_field fs this, costs cost (encode (VStruct fs)))) (v\<lparr>incoming := ts\<rparr>)"
  using assms by (rule protocol_in.timing_read_yields)

theorem timing_read_spec_witness:
  "yields (\<lambda>w. w) (port_with (encode (VStruct [(1, VI64 (i64 3)), (2, VString ''x''), (9, VStruct [(1, VOther 15 1 0)]), (1, VI64 (i64 5))])))
     (timing_read (memory_protocol unit_cost) timing_ctor)
     (Inr (timing_ctor\<lparr>msgid := i64 5, isset := timing_isset_ctor\<lparr>isset_msgid := True\<rparr>\<rparr>, 20)) (port_with [])"
proof -
  let ?fs = "[(1, VI64 (i64 3)), (2, VString ''x''), (9, VStruct [(1, VOther 15 1 0)]), (1, VI64 (i64 5))]"
  have "fold timing_field ?fs timing_ctor = timing_ctor\<lparr>msgid := i64 5, isset := timing_isset_ctor\<lparr>isset_msgid := True\<rparr>\<rparr>"
    by (simp add: timing_ctor_def)
  moreover have "costs unit_cost (encode (VStruct ?fs)) = 20"
    by (simp add: unit_cost_def)
  ultimately show ?thesis
    using timing_read_spec [OF memory_protocol_in, of "port_with (encode (VStruct ?fs))" ?fs "[]" unit_cost timing_ctor]
    by simp
qed

text \<open>
  C34: round trip of \<open>timing\<close>: what \<open>timing::write\<close> writes, \<open>timing::read\<close> of any object
  reads back completely: all members are the written ones, all flags are set, and both
  return the same count.
\<close>

theorem timing_roundtrip:
  assumes "protocol prot view cost" and "1 \<le> out_depth v"
  shows "\<exists>toks n. yields view v (timing_write prot t) (Inr n) (v\<lparr>unflushed := unflushed v @ toks\<rparr>) \<and>
    (\<forall>u ts this. incoming u = toks @ ts \<longrightarrow> 2 \<le> in_depth u \<longrightarrow>
       yields view u (timing_read prot this) (Inr (timing_all_set t, n)) (u\<lparr>incoming := ts\<rparr>))"
proof -
  obtain fs where fs: "timing_value t = VStruct fs"
    by (simp add: timing_value_def)
  have "yields view v (timing_write prot t) (Inr (costs cost (encode (timing_value t))))
      (v\<lparr>unflushed := unflushed v @ encode (timing_value t)\<rparr>)"
    using protocol_out.timing_write_writes [of prot view cost t] assms
    by (simp add: protocol_def protocol_out.writes_def)
  moreover have "yields view u (timing_read prot this) (Inr (timing_all_set t, costs cost (encode (timing_value t))))
      (u\<lparr>incoming := ts\<rparr>)" if "incoming u = encode (timing_value t) @ ts" "2 \<le> in_depth u" for u ts this
    using protocol_in.timing_read_yields [of prot view cost u fs ts this] assms(1) that
      fold_timing_value [OF fs] levels_values(1) [of t]
    by (simp add: protocol_def fs)
  ultimately show ?thesis
    by blast
qed

theorem timing_roundtrip_witness:
  "\<exists>toks n. yields (\<lambda>w. w) (port_with []) (timing_write (memory_protocol unit_cost) timing_ctor) (Inr n)
      ((port_with [])\<lparr>unflushed := toks\<rparr>) \<and>
    yields (\<lambda>w. w) (port_with toks) (timing_read (memory_protocol unit_cost) timing_ctor)
      (Inr (timing_all_set timing_ctor, n)) (port_with [])"
proof -
  obtain toks n where toks: "yields (\<lambda>w. w) (port_with []) (timing_write (memory_protocol unit_cost) timing_ctor) (Inr n)
      ((port_with [])\<lparr>unflushed := unflushed (port_with []) @ toks\<rparr>)"
    "\<forall>(u :: unit port) ts this. incoming u = toks @ ts \<longrightarrow> 2 \<le> in_depth u \<longrightarrow>
      yields (\<lambda>w. w) u (timing_read (memory_protocol unit_cost) this) (Inr (timing_all_set timing_ctor, n)) (u\<lparr>incoming := ts\<rparr>)"
    using timing_roundtrip [OF memory.protocol_axioms, of "port_with []" unit_cost timing_ctor] by simp blast
  from toks(1) toks(2) [rule_format, of "port_with toks" "[]" timing_ctor] show ?thesis
    by auto
qed

text \<open>
  Round trip of the call's arguments: what the client's \<open>Bench_bench_pargs::write\<close> (or
  \<open>Bench_bench_args::write\<close>) writes, the server's \<open>Bench_bench_args::read\<close> reads back as the
  client's message with all flags set.
\<close>

theorem args_roundtrip:
  assumes "protocol prot view cost" and "2 \<le> out_depth v"
  shows "\<exists>toks n. yields view v (Bench_bench_pargs_write prot \<lparr>pargs_arg = t\<rparr>) (Inr n) (v\<lparr>unflushed := unflushed v @ toks\<rparr>) \<and>
    yields view v (Bench_bench_args_write prot \<lparr>args_arg = t, args_isset_arg = b\<rparr>) (Inr n) (v\<lparr>unflushed := unflushed v @ toks\<rparr>) \<and>
    (\<forall>u ts this. incoming u = toks @ ts \<longrightarrow> 3 \<le> in_depth u \<longrightarrow>
       yields view u (Bench_bench_args_read prot this) (Inr (\<lparr>args_arg = timing_all_set t, args_isset_arg = True\<rparr>, n))
         (u\<lparr>incoming := ts\<rparr>))"
proof -
  obtain fs where fs: "args_value t = VStruct fs"
    by (simp add: args_value_def)
  have "yields view v (Bench_bench_pargs_write prot \<lparr>pargs_arg = t\<rparr>) (Inr (costs cost (encode (args_value t))))
      (v\<lparr>unflushed := unflushed v @ encode (args_value t)\<rparr>)"
    "yields view v (Bench_bench_args_write prot \<lparr>args_arg = t, args_isset_arg = b\<rparr>) (Inr (costs cost (encode (args_value t))))
      (v\<lparr>unflushed := unflushed v @ encode (args_value t)\<rparr>)"
    using protocol_out.Bench_bench_pargs_write_writes [of prot view cost "\<lparr>pargs_arg = t\<rparr>"]
      protocol_out.Bench_bench_args_write_writes [of prot view cost "\<lparr>args_arg = t, args_isset_arg = b\<rparr>"] assms
    by (simp_all add: protocol_def protocol_out.writes_def)
  moreover have "yields view u (Bench_bench_args_read prot this)
      (Inr (\<lparr>args_arg = timing_all_set t, args_isset_arg = True\<rparr>, costs cost (encode (args_value t)))) (u\<lparr>incoming := ts\<rparr>)"
    if "incoming u = encode (args_value t) @ ts" "3 \<le> in_depth u" for u ts this
    using protocol_in.Bench_bench_args_read_yields [of prot view cost u fs ts this] assms(1) that
      fold_args_value [OF fs] levels_values(2) [of t]
    by (simp add: protocol_def fs)
  ultimately show ?thesis
    by blast
qed

theorem args_roundtrip_witness:
  "\<exists>toks n. yields (\<lambda>w. w) (port_with []) (Bench_bench_pargs_write (memory_protocol unit_cost) \<lparr>pargs_arg = timing_ctor\<rparr>)
      (Inr n) ((port_with [])\<lparr>unflushed := toks\<rparr>)"
  using args_roundtrip [OF memory.protocol_axioms, of "port_with []" unit_cost timing_ctor False] by simp blast

text \<open>
  C35: the result on the wire: what the server's \<open>Bench_bench_result::write\<close> writes, the
  client's \<open>Bench_bench_presult::read\<close> reads back: the value and its flag when the result
  was set, and otherwise neither: the client's variable keeps its state.
\<close>

theorem result_roundtrip:
  assumes "protocol prot view cost"
  shows "\<exists>toks n. yields view v (Bench_bench_result_write prot r) (Inr n) (v\<lparr>unflushed := unflushed v @ toks\<rparr>) \<and>
    (\<forall>u ts this. incoming u = toks @ ts \<longrightarrow> 2 \<le> in_depth u \<longrightarrow>
       yields view u (Bench_bench_presult_read prot this)
         (Inr (if result_isset_success r then \<lparr>presult_success = Some (success r), presult_isset_success = True\<rparr> else this, n))
         (u\<lparr>incoming := ts\<rparr>))"
proof -
  let ?fs = "if result_isset_success r then [(0, VI64 (success r))] else []"
  have "yields view v (Bench_bench_result_write prot r) (Inr (costs cost (encode (result_value r))))
      (v\<lparr>unflushed := unflushed v @ encode (result_value r)\<rparr>)"
    using assms by (simp add: protocol_def protocol_out.result_write_anyway)
  moreover have "yields view u (Bench_bench_presult_read prot this)
      (Inr (fold presult_field ?fs this, costs cost (encode (result_value r)))) (u\<lparr>incoming := ts\<rparr>)"
    if "incoming u = encode (result_value r) @ ts" "2 \<le> in_depth u" for u ts this
    using protocol_in.Bench_bench_presult_read_yields [of prot view cost u ?fs ts this] assms that
      levels_values(3) [of r]
    by (simp add: protocol_def result_value_def)
  moreover have "fold presult_field ?fs this =
      (if result_isset_success r then \<lparr>presult_success = Some (success r), presult_isset_success = True\<rparr> else this)" for this
    by (cases this) simp
  ultimately show ?thesis
    by (simp only:) blast
qed

theorem result_roundtrip_witness:
  "\<exists>toks n. yields (\<lambda>w. w) (port_with toks) (Bench_bench_presult_read (memory_protocol unit_cost) Bench_bench_presult_ctor)
     (Inr (\<lparr>presult_success = Some (i64 7), presult_isset_success = True\<rparr>, n)) (port_with [])"
proof -
  obtain toks n where "\<forall>(u :: unit port) ts this. incoming u = toks @ ts \<longrightarrow> 2 \<le> in_depth u \<longrightarrow>
      yields (\<lambda>w. w) u (Bench_bench_presult_read (memory_protocol unit_cost) this)
        (Inr (\<lparr>presult_success = Some (i64 7), presult_isset_success = True\<rparr>, n)) (u\<lparr>incoming := ts\<rparr>)"
    using result_roundtrip [OF memory.protocol_axioms, of "port_with []" unit_cost "\<lparr>success = i64 7, result_isset_success = True\<rparr>"]
    by simp blast
  from this [rule_format, of "port_with toks" "[]"] show ?thesis
    by auto
qed

text \<open>
  C38: without recursion depth left every reader of a struct, and every writer with a tracker,
  throws \<open>DEPTH_LIMIT\<close> and has neither read nor written anything; the level it counted is
  not given back. \<open>Bench_bench_result::write\<close>, which has no tracker, writes as usual.
\<close>

theorem depth_limit:
  assumes "protocol prot view cost" and "in_depth v \<le> 0" and "out_depth v \<le> 0"
  shows "yields view v (timing_read prot t) (Inl (Throw (TProtocolException DEPTH_LIMIT))) (v\<lparr>in_depth := in_depth v - 1\<rparr>) \<and>
    yields view v (Bench_bench_args_read prot args) (Inl (Throw (TProtocolException DEPTH_LIMIT))) (v\<lparr>in_depth := in_depth v - 1\<rparr>) \<and>
    yields view v (Bench_bench_result_read prot result) (Inl (Throw (TProtocolException DEPTH_LIMIT))) (v\<lparr>in_depth := in_depth v - 1\<rparr>) \<and>
    yields view v (Bench_bench_presult_read prot presult) (Inl (Throw (TProtocolException DEPTH_LIMIT))) (v\<lparr>in_depth := in_depth v - 1\<rparr>) \<and>
    yields view v (timing_write prot t) (Inl (Throw (TProtocolException DEPTH_LIMIT))) (v\<lparr>out_depth := out_depth v - 1\<rparr>) \<and>
    yields view v (Bench_bench_args_write prot args) (Inl (Throw (TProtocolException DEPTH_LIMIT))) (v\<lparr>out_depth := out_depth v - 1\<rparr>) \<and>
    yields view v (Bench_bench_pargs_write prot pargs) (Inl (Throw (TProtocolException DEPTH_LIMIT))) (v\<lparr>out_depth := out_depth v - 1\<rparr>) \<and>
    (\<exists>n. yields view v (Bench_bench_result_write prot result) (Inr n)
       (v\<lparr>unflushed := unflushed v @ encode (result_value result)\<rparr>))"
proof -
  have rd: "protocol_in prot view cost" and wr: "protocol_out prot view cost"
    using assms(1) by (simp_all add: protocol_def)
  note reads = protocol_in.read_struct_limit [OF rd assms(2)]
  note writes = protocol_out.tracker_out_limit [OF wr assms(3)]
  note result = protocol_out.result_write_anyway [OF wr, of v result]
  show ?thesis
    unfolding timing_read_def Bench_bench_args_read_def Bench_bench_result_read_def Bench_bench_presult_read_def
      timing_write_def Bench_bench_args_write_def Bench_bench_pargs_write_def
    by (intro conjI reads writes, intro exI, rule result)
qed

theorem depth_limit_witness:
  "yields (\<lambda>w. w) ((port_with [])\<lparr>in_depth := 0, out_depth := 0\<rparr>) (timing_read (memory_protocol unit_cost) timing_ctor)
     (Inl (Throw (TProtocolException DEPTH_LIMIT))) ((port_with [])\<lparr>in_depth := -1, out_depth := 0\<rparr>)"
  using depth_limit [OF memory.protocol_axioms, of "(port_with [])\<lparr>in_depth := 0, out_depth := 0\<rparr>" unit_cost timing_ctor]
  by (simp add: port_with_def)

end
