(* ===== verification/Thrift_Rpc.thy ===== *)
theory Thrift_Rpc
  imports Thrift_Wire
begin

text \<open>
  \<open>thrift-bench/gen-cpp/Bench.cpp\<close> and \<open>Bench.h\<close>: the client, the processor with its event
  handler, the factories, \<open>BenchNull\<close> and \<open>BenchMultiface\<close>, over any protocol objects that
  keep the laws of \<open>Wire\<close>; a handler (\<open>BenchIf\<close>) is a function from the message to a
  program over the server's world.
\<close>

type_synonym 'w BenchIf = "timing \<Rightarrow> ('w, int64) prog"

section \<open>The client\<close>

record 'w BenchClient =
  iprot :: "'w tprotocol"
  oprot :: "'w tprotocol"

definition BenchClient_ctor :: "'w tprotocol \<Rightarrow> 'w BenchClient" where
  "BenchClient_ctor prot = \<lparr>iprot = prot, oprot = prot\<rparr>"

definition BenchClient_ctor2 :: "'w tprotocol \<Rightarrow> 'w tprotocol \<Rightarrow> 'w BenchClient" where
  "BenchClient_ctor2 inp outp = \<lparr>iprot = inp, oprot = outp\<rparr>"

definition getInputProtocol :: "('w, 'x) BenchClient_scheme \<Rightarrow> 'w tprotocol" where
  "getInputProtocol this = iprot this"

definition getOutputProtocol :: "('w, 'x) BenchClient_scheme \<Rightarrow> 'w tprotocol" where
  "getOutputProtocol this = oprot this"

definition BenchClient_send_bench :: "'w BenchClient \<Rightarrow> timing \<Rightarrow> ('w, unit) prog" where
  "BenchClient_send_bench this arg =
     (let cseqid = 0; outp = oprot this in
     seqP (writeMessageBegin outp ''bench'' T_CALL cseqid) (
     bindP (Bench_bench_pargs_write outp \<lparr>pargs_arg = arg\<rparr>) (\<lambda>_.
     seqP (writeMessageEnd outp) (
     bindP (writeEnd outp) (\<lambda>_.
     flush outp)))))"

text \<open>A message whose content is not wanted.\<close>

definition drop_message :: "'w tprotocol \<Rightarrow> ('w, unit) prog" where
  "drop_message inp =
     bindP (skip inp T_STRUCT) (\<lambda>_.
     seqP (readMessageEnd inp) (
     bindP (readEnd inp) (\<lambda>_. returnP ())))"

text \<open>An exception reply: read, and thrown.\<close>

definition recv_exception :: "'w tprotocol \<Rightarrow> ('w, exn) prog" where
  "recv_exception inp =
     bindP (appexn_read inp) (\<lambda>(k, m).
     seqP (readMessageEnd inp) (
     bindP (readEnd inp) (\<lambda>_.
     returnP (TApplicationException k m))))"

text \<open>The result struct with the end of its message, and what the method makes of it.\<close>

definition recv_result :: "'w tprotocol \<Rightarrow> ('w, Bench_bench_presult) prog" where
  "recv_result inp =
     bindP (Bench_bench_presult_read inp Bench_bench_presult_ctor) (\<lambda>(result, _).
     seqP (readMessageEnd inp) (
     bindP (readEnd inp) (\<lambda>_.
     returnP result)))"

definition result_or_throw :: "Bench_bench_presult \<Rightarrow> stop + int64" where
  "result_or_throw result =
     (if presult_isset_success result then
        (case presult_success result of
           None \<Rightarrow> Inl (Undef Uninitialised_read)
         | Some r \<Rightarrow> Inr r)
      else Inl (Throw (TApplicationException MISSING_RESULT ''bench failed: unknown result'')))"

text \<open>
  The reply is checked for its type and its name; a message that fails a check is dropped,
  and the method goes on to read a result either way. The sequence id is not looked at.
\<close>

definition BenchClient_recv_bench :: "'w BenchClient \<Rightarrow> ('w, int64) prog" where
  "BenchClient_recv_bench this =
     (let inp = iprot this in
     bindP (readMessageBegin inp) (\<lambda>(fname, mtype, rseqid).
     if mtype = T_EXCEPTION then
       bindP (recv_exception inp) (\<lambda>x. stopP (Throw x))
     else
     seqP (if mtype \<noteq> T_REPLY then drop_message inp else returnP ()) (
     seqP (if fname \<noteq> ''bench'' then drop_message inp else returnP ()) (
     bindP (recv_result inp) (\<lambda>result.
     pureP (result_or_throw result))))))"

definition BenchClient_bench :: "'w BenchClient \<Rightarrow> 'w BenchIf" where
  "BenchClient_bench this arg =
     seqP (BenchClient_send_bench this arg) (BenchClient_recv_bench this)"

section \<open>The processor\<close>

text \<open>
  The library's event handler, whose callbacks a user may define: programs over the server's
  world. A context is an opaque pointer, 0 the null pointer.
\<close>

record 'w event_handler =
  getContext :: "string \<Rightarrow> nat \<Rightarrow> ('w, nat) prog"
  freeContext :: "nat \<Rightarrow> string \<Rightarrow> 'w \<Rightarrow> 'w"
  preRead :: "nat \<Rightarrow> string \<Rightarrow> ('w, unit) prog"
  postRead :: "nat \<Rightarrow> string \<Rightarrow> u32 \<Rightarrow> ('w, unit) prog"
  preWrite :: "nat \<Rightarrow> string \<Rightarrow> ('w, unit) prog"
  postWrite :: "nat \<Rightarrow> string \<Rightarrow> u32 \<Rightarrow> ('w, unit) prog"
  handlerError :: "nat \<Rightarrow> string \<Rightarrow> ('w, unit) prog"

datatype process_function = Process_bench

record 'w BenchProcessor =
  iface :: "'w BenchIf"
  eventHandler :: "'w event_handler option"
  processMap :: "(string \<times> process_function) list"

definition BenchProcessor_ctor :: "'w BenchIf \<Rightarrow> 'w BenchProcessor" where
  "BenchProcessor_ctor i = \<lparr>iface = i, eventHandler = None, processMap = [(''bench'', Process_bench)]\<rparr>"

definition on_event :: "'w BenchProcessor \<Rightarrow> ('w event_handler \<Rightarrow> ('w, unit) prog) \<Rightarrow> ('w, unit) prog" where
  "on_event this f = (case eventHandler this of None \<Rightarrow> returnP () | Some h \<Rightarrow> f h)"

text \<open>\<open>TProcessorContextFreer\<close>'s destructor.\<close>

definition TProcessorContextFreer :: "'w BenchProcessor \<Rightarrow> nat \<Rightarrow> 'w \<Rightarrow> 'w" where
  "TProcessorContextFreer this ctx w = (case eventHandler this of
     None \<Rightarrow> w | Some h \<Rightarrow> freeContext h ctx ''Bench.bench'' w)"

text \<open>
  An exception message. \<open>what\<close> is \<open>std::exception::what\<close>, which the library and the
  handler's author define.
\<close>

definition write_exception :: "'w tprotocol \<Rightarrow> string \<Rightarrow> int32 \<Rightarrow> app_kind \<Rightarrow> string \<Rightarrow> ('w, unit) prog" where
  "write_exception outp fname seqid k m =
     seqP (writeMessageBegin outp fname T_EXCEPTION seqid) (
     seqP (appexn_write outp k m) (
     seqP (writeMessageEnd outp) (
     bindP (writeEnd outp) (\<lambda>_.
     flush outp))))"

definition process_bench ::
    "(exn \<Rightarrow> string) \<Rightarrow> 'w BenchProcessor \<Rightarrow> int32 \<Rightarrow> 'w tprotocol \<Rightarrow> 'w tprotocol \<Rightarrow> nat \<Rightarrow> ('w, unit) prog" where
  "process_bench what this seqid inp outp callContext =
     bindP (case eventHandler this of
         None \<Rightarrow> returnP 0
       | Some h \<Rightarrow> getContext h ''Bench.bench'' callContext) (\<lambda>ctx.
     finallyP (
       seqP (on_event this (\<lambda>h. preRead h ctx ''Bench.bench'')) (
       bindP (Bench_bench_args_read inp Bench_bench_args_ctor) (\<lambda>(args, _).
       seqP (readMessageEnd inp) (
       bindP (readEnd inp) (\<lambda>bytes.
       seqP (on_event this (\<lambda>h. postRead h ctx ''Bench.bench'' bytes)) (
       bindP (catchP
           (bindP (iface this (args_arg args)) (\<lambda>r.
            returnP (Some (Bench_bench_result_ctor\<lparr>success := r, result_isset_success := True\<rparr>))))
           (\<lambda>e.
            seqP (on_event this (\<lambda>h. handlerError h ctx ''Bench.bench'')) (
            seqP (write_exception outp ''bench'' seqid UNKNOWN (what e)) (
            returnP None)))) (\<lambda>outcome.
       case outcome of
         None \<Rightarrow> returnP ()
       | Some result \<Rightarrow>
           seqP (on_event this (\<lambda>h. preWrite h ctx ''Bench.bench'')) (
           seqP (writeMessageBegin outp ''bench'' T_REPLY seqid) (
           bindP (Bench_bench_result_write outp result) (\<lambda>_.
           seqP (writeMessageEnd outp) (
           bindP (writeEnd outp) (\<lambda>bytes.
           seqP (flush outp) (
           on_event this (\<lambda>h. postWrite h ctx ''Bench.bench'' bytes))))))))))))))
     (TProcessorContextFreer this ctx))"

definition dispatchCall ::
    "(exn \<Rightarrow> string) \<Rightarrow> 'w BenchProcessor \<Rightarrow> 'w tprotocol \<Rightarrow> 'w tprotocol \<Rightarrow> string \<Rightarrow> int32 \<Rightarrow> nat \<Rightarrow> ('w, bool) prog" where
  "dispatchCall what this inp outp fname seqid callContext =
     (case map_of (processMap this) fname of
        None \<Rightarrow>
          seqP (drop_message inp) (
          seqP (write_exception outp fname seqid UNKNOWN_METHOD (''Invalid method name: '' @ [CHR 0x27] @ fname @ [CHR 0x27])) (
          returnP True))
      | Some Process_bench \<Rightarrow>
          seqP (process_bench what this seqid inp outp callContext) (returnP True))"

section \<open>Other handlers and the factories\<close>

definition BenchNull_bench :: "'w BenchIf" where
  "BenchNull_bench arg = (let r = i64 0 in returnP r)"

text \<open>\<open>BenchMultiface\<close>: the loop bound \<open>sz - 1\<close> is computed on \<open>size_t\<close>.\<close>

definition BenchMultiface_bench :: "'w BenchIf list \<Rightarrow> 'w BenchIf" where
  "BenchMultiface_bench ifaces arg =
     (let sz = (of_nat (length ifaces) :: 64 word) in
     bindP (loopP (\<lambda>i :: 64 word.
         if i < sz - 1 then
           bindP (pureP (vector_at ifaces (uint i))) (\<lambda>h.
           bindP (h arg) (\<lambda>_.
           returnP (Continue (i + 1))))
         else returnP (Break i)) 0) (\<lambda>i.
     bindP (pureP (vector_at ifaces (uint i))) (\<lambda>h.
     h arg)))"

text \<open>\<open>BenchMultiface\<close>'s member is the vector \<open>ifaces_\<close>, copied from the constructor's argument or empty.\<close>

definition BenchMultiface_ctor :: "'w BenchIf list \<Rightarrow> 'w BenchIf list" where
  "BenchMultiface_ctor ifaces = ifaces"

definition BenchMultiface_ctor0 :: "'w BenchIf list" where
  "BenchMultiface_ctor0 = []"

definition BenchMultiface_add :: "'w BenchIf list \<Rightarrow> 'w BenchIf \<Rightarrow> 'w BenchIf list" where
  "BenchMultiface_add ifaces i = ifaces @ [i]"

text \<open>A handler factory; \<open>connInfo\<close> is the library's description of the connection.\<close>

record ('c, 'w) BenchIfFactory =
  getHandler :: "'c \<Rightarrow> ('w, 'w BenchIf) prog"
  releaseHandler :: "'w BenchIf \<Rightarrow> 'w \<Rightarrow> 'w"

definition BenchIfSingletonFactory :: "'w BenchIf \<Rightarrow> ('c, 'w) BenchIfFactory" where
  "BenchIfSingletonFactory i = \<lparr>getHandler = (\<lambda>connInfo. returnP i), releaseHandler = (\<lambda>handler w. w)\<rparr>"

text \<open>
  \<open>getProcessor\<close>: a processor on the factory's handler, and what destroying it runs (the
  shared pointer's deleter is \<open>ReleaseHandler\<close>).
\<close>

record ('c, 'w) BenchProcessorFactory =
  handlerFactory :: "('c, 'w) BenchIfFactory"

definition BenchProcessorFactory_ctor :: "('c, 'w) BenchIfFactory \<Rightarrow> ('c, 'w) BenchProcessorFactory" where
  "BenchProcessorFactory_ctor factory = \<lparr>handlerFactory = factory\<rparr>"

definition getProcessor :: "('c, 'w) BenchProcessorFactory \<Rightarrow> 'c \<Rightarrow> ('w, 'w BenchProcessor \<times> ('w \<Rightarrow> 'w)) prog" where
  "getProcessor this connInfo =
     (let cleanup = releaseHandler (handlerFactory this) in
     bindP (getHandler (handlerFactory this) connInfo) (\<lambda>handler.
     returnP (BenchProcessor_ctor handler, cleanup handler)))"

text \<open>With the factory of one handler, every connection's processor runs that handler, and nothing is released.\<close>

lemma getProcessor_singleton:
  "getProcessor (BenchProcessorFactory_ctor (BenchIfSingletonFactory i)) connInfo = returnP (BenchProcessor_ctor i, \<lambda>w. w)"
  by (simp add: getProcessor_def BenchProcessorFactory_ctor_def BenchIfSingletonFactory_def prog_defs)

text \<open>\<open>Bench_server.skeleton.cpp\<close>: the stub's \<open>bench\<close> prints a line and has no \<open>return\<close>.\<close>

definition BenchHandler_bench :: "(string \<Rightarrow> ('w, unit) prog) \<Rightarrow> 'w BenchIf" where
  "BenchHandler_bench printf arg = seqP (printf (''bench'' @ [CHR 0x0A])) (stopP (Undef No_return_value))"

section \<open>Over the laws of the protocols\<close>

text \<open>The end of \<open>recv_bench\<close>: the result struct with any fields, and what it means.\<close>

definition reply_outcome :: "(int16 \<times> val) list \<Rightarrow> stop + int64" where
  "reply_outcome fs = (case presult_success (fold presult_field fs Bench_bench_presult_ctor) of
     None \<Rightarrow> Inl (Throw (TApplicationException MISSING_RESULT ''bench failed: unknown result''))
   | Some x \<Rightarrow> Inr x)"

text \<open>An input and an output protocol of one side of a connection.\<close>

locale connection = rd: protocol_in inp view cost + wr: protocol_out outp view cost
  for inp outp :: "'w tprotocol" and view :: "'w \<Rightarrow> 'a port" and cost :: "token \<Rightarrow> u32"
begin

lemma drop_message_yields:
  assumes "incoming v = encode (VStruct fs) @ Message_end # ts" and "levels (VStruct fs) \<le> in_depth v"
  shows "yields view v (drop_message inp) (Inr ()) (v\<lparr>incoming := ts\<rparr>)"
proof -
  let ?v = "v\<lparr>incoming := Message_end # ts\<rparr>" and ?v' = "v\<lparr>incoming := ts\<rparr>"
  have s: "yields view v (skip inp T_STRUCT) (Inr (sum_list (map cost (encode (VStruct fs))))) ?v"
    using rd.skip [OF assms] by simp
  have m: "yields view ?v (readMessageEnd inp) (Inr ()) ?v'"
    using rd.readMessageEnd [of ?v ts] by simp
  obtain n where e: "yields view ?v' (readEnd inp) (Inr n) ?v'"
    using rd.readEnd by blast
  show ?thesis
    unfolding drop_message_def
    by (rule yields_bind [OF s], rule yields_seq [OF m], rule yields_bind [OF e], rule yields_return)
qed

lemma recv_exception_yields:
  assumes "incoming v = Exception_token k m # Message_end # ts"
  shows "yields view v (recv_exception inp) (Inr (TApplicationException k m)) (v\<lparr>incoming := ts\<rparr>)"
proof -
  let ?v = "v\<lparr>incoming := Message_end # ts\<rparr>" and ?v' = "v\<lparr>incoming := ts\<rparr>"
  have x: "yields view v (appexn_read inp) (Inr (k, m)) ?v"
    using assms by (rule rd.appexn_read)
  have m: "yields view ?v (readMessageEnd inp) (Inr ()) ?v'"
    using rd.readMessageEnd [of ?v ts] by simp
  obtain n where e: "yields view ?v' (readEnd inp) (Inr n) ?v'"
    using rd.readEnd by blast
  show ?thesis
    unfolding recv_exception_def
    by (rule yields_bind [OF x], unfold split, rule yields_seq [OF m], rule yields_bind [OF e], rule yields_return)
qed

lemma write_exception_yields:
  "yields view v (write_exception outp fname q k m) (Inr ())
     (v\<lparr>unflushed := [], flushed := flushed v @ unflushed v @ [Message fname T_EXCEPTION q, Exception_token k m, Message_end]\<rparr>)"
proof -
  let ?v1 = "v\<lparr>unflushed := unflushed v @ [Message fname T_EXCEPTION q]\<rparr>"
  let ?v2 = "v\<lparr>unflushed := unflushed v @ [Message fname T_EXCEPTION q, Exception_token k m]\<rparr>"
  let ?v3 = "v\<lparr>unflushed := unflushed v @ [Message fname T_EXCEPTION q, Exception_token k m, Message_end]\<rparr>"
  have b: "yields view v (writeMessageBegin outp fname T_EXCEPTION q) (Inr ()) ?v1"
    by (rule wr.writeMessageBegin)
  have x: "yields view ?v1 (appexn_write outp k m) (Inr ()) ?v2"
    using wr.appexn_write [of ?v1 k m] by simp
  have m: "yields view ?v2 (writeMessageEnd outp) (Inr ()) ?v3"
    using wr.writeMessageEnd [of ?v2] by simp
  obtain n where e: "yields view ?v3 (writeEnd outp) (Inr n) ?v3"
    using wr.writeEnd by blast
  have "yields view v (write_exception outp fname q k m) (Inr ())
      (?v3\<lparr>unflushed := [], flushed := flushed ?v3 @ unflushed ?v3\<rparr>)"
    unfolding write_exception_def
    by (rule yields_seq [OF b], rule yields_seq [OF x], rule yields_seq [OF m], rule yields_bind [OF e], rule wr.flush)
  then show ?thesis
    by simp
qed

text \<open>A message with a struct: the call and the reply.\<close>

lemma write_message_yields:
  assumes "wr.writes d m ts" and "d \<le> out_depth v"
  shows "\<exists>n. yields view v (seqP (writeMessageBegin outp fname t q) (bindP m (\<lambda>_.
       seqP (writeMessageEnd outp) (writeEnd outp)))) (Inr n)
     (v\<lparr>unflushed := unflushed v @ Message fname t q # ts @ [Message_end]\<rparr>)"
proof -
  let ?v1 = "v\<lparr>unflushed := unflushed v @ [Message fname t q]\<rparr>"
  let ?v2 = "v\<lparr>unflushed := unflushed v @ Message fname t q # ts\<rparr>"
  let ?v3 = "v\<lparr>unflushed := unflushed v @ Message fname t q # ts @ [Message_end]\<rparr>"
  have b: "yields view v (writeMessageBegin outp fname t q) (Inr ()) ?v1"
    by (rule wr.writeMessageBegin)
  have w: "yields view ?v1 m (Inr (costs cost ts)) ?v2"
    using wr.writesD [OF assms(1), of ?v1] assms(2) by simp
  have m: "yields view ?v2 (writeMessageEnd outp) (Inr ()) ?v3"
    using wr.writeMessageEnd [of ?v2] by simp
  obtain n where e: "yields view ?v3 (writeEnd outp) (Inr n) ?v3"
    using wr.writeEnd by blast
  show ?thesis
    by (rule exI, rule yields_seq [OF b], rule yields_bind [OF w], rule yields_seq [OF m], rule e)
qed

lemma write_message_then:
  assumes "wr.writes d m ts" and "d \<le> out_depth v"
    and "\<And>n. yields view (v\<lparr>unflushed := unflushed v @ Message fname t q # ts @ [Message_end]\<rparr>) (k n) r v'"
  shows "yields view v (seqP (writeMessageBegin outp fname t q) (bindP m (\<lambda>_.
       seqP (writeMessageEnd outp) (bindP (writeEnd outp) k)))) r v'"
proof -
  have eq: "seqP (writeMessageBegin outp fname t q) (bindP m (\<lambda>_.
       seqP (writeMessageEnd outp) (bindP (writeEnd outp) k))) =
     bindP (seqP (writeMessageBegin outp fname t q) (bindP m (\<lambda>_.
       seqP (writeMessageEnd outp) (writeEnd outp)))) k"
    by (simp add: seqP_def bind_assoc)
  obtain n where "yields view v (seqP (writeMessageBegin outp fname t q) (bindP m (\<lambda>_.
       seqP (writeMessageEnd outp) (writeEnd outp)))) (Inr n)
     (v\<lparr>unflushed := unflushed v @ Message fname t q # ts @ [Message_end]\<rparr>)"
    using write_message_yields [OF assms(1,2)] by blast
  then show ?thesis
    unfolding eq using assms(3) by (rule yields_bind)
qed

lemma send_bench_yields:
  assumes "2 \<le> out_depth v"
  shows "yields view v (BenchClient_send_bench \<lparr>iprot = inp, oprot = outp\<rparr> m) (Inr ())
     (v\<lparr>unflushed := [], flushed := flushed v @ unflushed v @
        Message ''bench'' T_CALL 0 # encode (args_value m) @ [Message_end]\<rparr>)"
proof -
  have "wr.writes 2 (Bench_bench_pargs_write outp \<lparr>pargs_arg = m\<rparr>) (encode (args_value m))"
    using wr.Bench_bench_pargs_write_writes [of "\<lparr>pargs_arg = m\<rparr>"] by simp
  from write_message_then [OF this assms, of "''bench''" T_CALL 0 "\<lambda>_. flush outp"]
  show ?thesis
    using wr.flush [of "v\<lparr>unflushed := unflushed v @ Message ''bench'' T_CALL 0 # encode (args_value m) @ [Message_end]\<rparr>"]
    by (simp add: BenchClient_send_bench_def)
qed

end

text \<open>The flag is set exactly when the variable is.\<close>

lemma presult_consistent:
  "presult_isset_success r \<longleftrightarrow> presult_success r \<noteq> None \<Longrightarrow>
   presult_isset_success (fold presult_field fs r) \<longleftrightarrow> presult_success (fold presult_field fs r) \<noteq> None"
proof (induction fs arbitrary: r)
  case Nil
  then show ?case by simp
next
  case (Cons f fs)
  obtain i x where f: "f = (i, x)"
    by (cases f)
  have "presult_isset_success (presult_field f r) \<longleftrightarrow> presult_success (presult_field f r) \<noteq> None"
    using Cons.prems by (cases x) (simp_all add: f)
  from Cons.IH [OF this] show ?case
    by simp
qed

lemma result_or_throw_fold:
  "result_or_throw (fold presult_field fs Bench_bench_presult_ctor) = reply_outcome fs"
  using presult_consistent [of Bench_bench_presult_ctor fs]
  by (auto simp: result_or_throw_def reply_outcome_def Bench_bench_presult_ctor_def)

context connection
begin

lemma recv_result_yields:
  assumes "incoming v = encode (VStruct fs) @ Message_end # ts" and "levels (VStruct fs) \<le> in_depth v"
  shows "yields view v (recv_result inp) (Inr (fold presult_field fs Bench_bench_presult_ctor)) (v\<lparr>incoming := ts\<rparr>)"
proof -
  let ?v = "v\<lparr>incoming := Message_end # ts\<rparr>" and ?v' = "v\<lparr>incoming := ts\<rparr>"
  have r: "yields view v (Bench_bench_presult_read inp Bench_bench_presult_ctor)
      (Inr (fold presult_field fs Bench_bench_presult_ctor, costs cost (encode (VStruct fs)))) ?v"
    using assms by (rule rd.Bench_bench_presult_read_yields)
  have m: "yields view ?v (readMessageEnd inp) (Inr ()) ?v'"
    using rd.readMessageEnd [of ?v ts] by simp
  obtain n where e: "yields view ?v' (readEnd inp) (Inr n) ?v'"
    using rd.readEnd by blast
  show ?thesis
    unfolding recv_result_def
    by (rule yields_bind [OF r], unfold split, rule yields_seq [OF m], rule yields_bind [OF e], rule yields_return)
qed

lemma recv_outcome_yields:
  assumes "incoming v = encode (VStruct fs) @ Message_end # ts" and "levels (VStruct fs) \<le> in_depth v"
  shows "yields view v (bindP (recv_result inp) (\<lambda>result. pureP (result_or_throw result)))
    (reply_outcome fs) (v\<lparr>incoming := ts\<rparr>)"
  by (rule yields_bind [OF recv_result_yields [OF assms]])
    (simp add: result_or_throw_fold yields_def pureP_def)

lemma recv_bench_reply:
  assumes "incoming v = Message ''bench'' T_REPLY q # encode (VStruct fs) @ Message_end # ts"
    and "levels (VStruct fs) \<le> in_depth v"
  shows "yields view v (BenchClient_recv_bench \<lparr>iprot = inp, oprot = outp\<rparr>) (reply_outcome fs) (v\<lparr>incoming := ts\<rparr>)"
proof -
  let ?v = "v\<lparr>incoming := encode (VStruct fs) @ Message_end # ts\<rparr>"
  have b: "yields view v (readMessageBegin inp) (Inr (''bench'', T_REPLY, q)) ?v"
    using assms(1) by (rule rd.readMessageBegin)
  have "yields view ?v (bindP (recv_result inp) (\<lambda>result. pureP (result_or_throw result)))
      (reply_outcome fs) (v\<lparr>incoming := ts\<rparr>)"
    using recv_outcome_yields [of ?v fs ts] assms(2) by simp
  then show ?thesis
    unfolding BenchClient_recv_bench_def Let_def BenchClient.simps
    by (intro yields_bind [OF b]) (simp add: seqP_def)
qed

lemma recv_bench_exception:
  assumes "incoming v = Message fname T_EXCEPTION q # Exception_token k m # Message_end # ts"
  shows "yields view v (BenchClient_recv_bench \<lparr>iprot = inp, oprot = outp\<rparr>)
    (Inl (Throw (TApplicationException k m))) (v\<lparr>incoming := ts\<rparr>)"
proof -
  let ?v = "v\<lparr>incoming := Exception_token k m # Message_end # ts\<rparr>"
  have b: "yields view v (readMessageBegin inp) (Inr (fname, T_EXCEPTION, q)) ?v"
    using assms(1) by (rule rd.readMessageBegin)
  have x: "yields view ?v (recv_exception inp) (Inr (TApplicationException k m)) (v\<lparr>incoming := ts\<rparr>)"
    using recv_exception_yields [of ?v k m ts] by simp
  show ?thesis
    unfolding BenchClient_recv_bench_def Let_def BenchClient.simps
    by (rule yields_bind [OF b], simp, rule yields_bind [OF x], rule yields_stop)
qed

lemma recv_bench_dropped:
  assumes "incoming v = Message fname t q # encode (VStruct gs) @ Message_end # encode (VStruct fs) @ Message_end # ts"
    and "t = T_REPLY \<longleftrightarrow> fname \<noteq> ''bench''" and "t \<noteq> T_EXCEPTION"
    and "levels (VStruct gs) \<le> in_depth v" and "levels (VStruct fs) \<le> in_depth v"
  shows "yields view v (BenchClient_recv_bench \<lparr>iprot = inp, oprot = outp\<rparr>) (reply_outcome fs) (v\<lparr>incoming := ts\<rparr>)"
proof -
  let ?v1 = "v\<lparr>incoming := encode (VStruct gs) @ Message_end # encode (VStruct fs) @ Message_end # ts\<rparr>"
  let ?v2 = "v\<lparr>incoming := encode (VStruct fs) @ Message_end # ts\<rparr>"
  have b: "yields view v (readMessageBegin inp) (Inr (fname, t, q)) ?v1"
    using assms(1) by (rule rd.readMessageBegin)
  have d: "yields view ?v1 (drop_message inp) (Inr ()) ?v2"
    using drop_message_yields [of ?v1 gs] assms(4) by simp
  have "yields view ?v2 (bindP (recv_result inp) (\<lambda>result. pureP (result_or_throw result)))
      (reply_outcome fs) (v\<lparr>incoming := ts\<rparr>)"
    using recv_outcome_yields [of ?v2 fs ts] assms(5) by simp
  from yields_seq [OF d this] show ?thesis
    unfolding BenchClient_recv_bench_def Let_def BenchClient.simps
    using assms(2,3) by (intro yields_bind [OF b]) (cases "t = T_REPLY", auto simp: seqP_def)
qed

end

section \<open>The processor's side\<close>

text \<open>
  The points at which \<open>process_bench\<close> calls the event handler. \<open>observes\<close>: the callbacks
  return and change the application's state as \<open>ev\<close> says, and nothing else; without an
  event handler \<open>ev\<close> changes nothing.
\<close>

datatype event = Get_context | Pre_read | Post_read | Handler_error | Pre_write | Post_write | Free_context

definition observes :: "('w \<Rightarrow> 'a port) \<Rightarrow> 'w BenchProcessor \<Rightarrow> (event \<Rightarrow> 'a \<Rightarrow> 'a) \<Rightarrow> bool" where
  "observes view this ev \<longleftrightarrow> (case eventHandler this of
     None \<Rightarrow> \<forall>e a. ev e a = a
   | Some h \<Rightarrow>
       (\<forall>v c. \<exists>ctx. yields view v (getContext h ''Bench.bench'' c) (Inr ctx) (v\<lparr>app := ev Get_context (app v)\<rparr>)) \<and>
       (\<forall>v c. yields view v (preRead h c ''Bench.bench'') (Inr ()) (v\<lparr>app := ev Pre_read (app v)\<rparr>)) \<and>
       (\<forall>v c n. yields view v (postRead h c ''Bench.bench'' n) (Inr ()) (v\<lparr>app := ev Post_read (app v)\<rparr>)) \<and>
       (\<forall>v c. yields view v (handlerError h c ''Bench.bench'') (Inr ()) (v\<lparr>app := ev Handler_error (app v)\<rparr>)) \<and>
       (\<forall>v c. yields view v (preWrite h c ''Bench.bench'') (Inr ()) (v\<lparr>app := ev Pre_write (app v)\<rparr>)) \<and>
       (\<forall>v c n. yields view v (postWrite h c ''Bench.bench'' n) (Inr ()) (v\<lparr>app := ev Post_write (app v)\<rparr>)) \<and>
       (\<forall>w c. view (freeContext h c ''Bench.bench'' w) = (view w)\<lparr>app := ev Free_context (app (view w))\<rparr>))"

lemma app_self [simp]: "v\<lparr>app := app v\<rparr> = v"
  by (cases v) simp

lemma observes_on_event:
  assumes "observes view this ev"
  shows "yields view v (on_event this (\<lambda>h. preRead h c ''Bench.bench'')) (Inr ()) (v\<lparr>app := ev Pre_read (app v)\<rparr>)"
    and "yields view v (on_event this (\<lambda>h. postRead h c ''Bench.bench'' n)) (Inr ()) (v\<lparr>app := ev Post_read (app v)\<rparr>)"
    and "yields view v (on_event this (\<lambda>h. handlerError h c ''Bench.bench'')) (Inr ()) (v\<lparr>app := ev Handler_error (app v)\<rparr>)"
    and "yields view v (on_event this (\<lambda>h. preWrite h c ''Bench.bench'')) (Inr ()) (v\<lparr>app := ev Pre_write (app v)\<rparr>)"
    and "yields view v (on_event this (\<lambda>h. postWrite h c ''Bench.bench'' n)) (Inr ()) (v\<lparr>app := ev Post_write (app v)\<rparr>)"
  using assms by (auto simp: observes_def on_event_def yields_return split: option.splits)

lemma observes_context:
  assumes "observes view this ev"
  shows "\<exists>ctx. yields view v (case eventHandler this of None \<Rightarrow> returnP 0
      | Some h \<Rightarrow> getContext h ''Bench.bench'' c) (Inr ctx) (v\<lparr>app := ev Get_context (app v)\<rparr>)"
    and "view (TProcessorContextFreer this ctx w) = (view w)\<lparr>app := ev Free_context (app (view w))\<rparr>"
  using assms by (auto simp: observes_def TProcessorContextFreer_def yields_return intro: exI [of _ 0] split: option.splits)

text \<open>How a handler's call ends: an answer or a \<open>std::exception\<close>; and what it is on the wire.\<close>

fun call_result :: "exn + int64 \<Rightarrow> stop + int64" where
  "call_result (Inl e) = Inl (Throw e)"
| "call_result (Inr r) = Inr r"

fun reply_body :: "(exn \<Rightarrow> string) \<Rightarrow> exn + int64 \<Rightarrow> int32 \<Rightarrow> token list" where
  "reply_body what (Inl e) q =
     [Message ''bench'' T_EXCEPTION q, Exception_token UNKNOWN (what e), Message_end]"
| "reply_body what (Inr r) q =
     Message ''bench'' T_REPLY q # encode (result_value \<lparr>success = r, result_isset_success = True\<rparr>) @ [Message_end]"

text \<open>The events after the handler's call.\<close>

fun after_call :: "(event \<Rightarrow> 'a \<Rightarrow> 'a) \<Rightarrow> exn + int64 \<Rightarrow> 'a \<Rightarrow> 'a" where
  "after_call ev (Inl e) a = ev Free_context (ev Handler_error a)"
| "after_call ev (Inr r) a = ev Free_context (ev Post_write (ev Pre_write a))"

definition before_call :: "(event \<Rightarrow> 'a \<Rightarrow> 'a) \<Rightarrow> 'a \<Rightarrow> 'a" where
  "before_call ev a = ev Post_read (ev Pre_read (ev Get_context a))"

text \<open>A handler that answers \<open>m\<close> with \<open>res\<close> from the state \<open>a\<close>, which it changes to \<open>a'\<close>.\<close>

definition serves :: "('w \<Rightarrow> 'a port) \<Rightarrow> 'w BenchIf \<Rightarrow> timing \<Rightarrow> 'a \<Rightarrow> exn + int64 \<Rightarrow> 'a \<Rightarrow> bool" where
  "serves view h m a res a' \<longleftrightarrow>
     (\<forall>v. app v = a \<longrightarrow> yields view v (h m) (call_result res) (v\<lparr>app := a'\<rparr>))"

context connection
begin

text \<open>The part of \<open>process_bench\<close> from the handler's call on.\<close>

lemma call_and_reply:
  assumes obs: "observes view this ev"
    and handler: "serves view (iface this) m a res a'" and v: "app v = a" "unflushed v = []"
  shows "yields view v
     (bindP (catchP
           (bindP (iface this m) (\<lambda>r.
            returnP (Some (Bench_bench_result_ctor\<lparr>success := r, result_isset_success := True\<rparr>))))
           (\<lambda>e.
            seqP (on_event this (\<lambda>h. handlerError h ctx ''Bench.bench'')) (
            seqP (write_exception outp ''bench'' q UNKNOWN (what e)) (
            returnP None)))) (\<lambda>outcome.
       case outcome of
         None \<Rightarrow> returnP ()
       | Some result \<Rightarrow>
           seqP (on_event this (\<lambda>h. preWrite h ctx ''Bench.bench'')) (
           seqP (writeMessageBegin outp ''bench'' T_REPLY q) (
           bindP (Bench_bench_result_write outp result) (\<lambda>_.
           seqP (writeMessageEnd outp) (
           bindP (writeEnd outp) (\<lambda>bytes.
           seqP (flush outp) (
           on_event this (\<lambda>h. postWrite h ctx ''Bench.bench'' bytes)))))))))
     (Inr ())
     (v\<lparr>flushed := flushed v @ reply_body what res q,
        app := (case res of Inl e \<Rightarrow> ev Handler_error a' | Inr r \<Rightarrow> ev Post_write (ev Pre_write a'))\<rparr>)"
proof (cases res)
  case (Inl e)
  let ?v1 = "v\<lparr>app := a'\<rparr>" and ?v2 = "v\<lparr>app := ev Handler_error a'\<rparr>"
  let ?v3 = "v\<lparr>flushed := flushed v @ reply_body what res q, app := ev Handler_error a'\<rparr>"
  have c: "yields view v (iface this m) (Inl (Throw e)) ?v1"
    using handler v(1) by (simp add: serves_def Inl)
  have h: "yields view ?v1 (on_event this (\<lambda>h. handlerError h ctx ''Bench.bench'')) (Inr ()) ?v2"
    using observes_on_event(3) [OF obs, of ?v1] by simp
  have x: "yields view ?v2 (write_exception outp ''bench'' q UNKNOWN (what e)) (Inr ()) ?v3"
    using write_exception_yields [of ?v2 "''bench''" q UNKNOWN "what e"] v(2) by (cases v) (simp add: Inl)
  show ?thesis
    by (rule yields_bind, rule yields_catch_throw, rule yields_bind_stop [OF c], rule yields_seq [OF h],
        rule yields_seq [OF x], rule yields_return) (simp add: Inl yields_return)
next
  case (Inr r)
  let ?r = "\<lparr>success = r, result_isset_success = True\<rparr>"
  let ?v1 = "v\<lparr>app := a'\<rparr>" and ?v2 = "v\<lparr>app := ev Pre_write a'\<rparr>"
  let ?body = "Message ''bench'' T_REPLY q # encode (result_value ?r) @ [Message_end]"
  let ?v3 = "?v2\<lparr>unflushed := unflushed ?v2 @ ?body\<rparr>"
  let ?v4 = "v\<lparr>flushed := flushed v @ ?body, app := ev Pre_write a'\<rparr>"
  let ?v5 = "v\<lparr>flushed := flushed v @ ?body, app := ev Post_write (ev Pre_write a')\<rparr>"
  have c: "yields view v (iface this m) (Inr r) ?v1"
    using handler v(1) by (simp add: serves_def Inr)
  have p: "yields view ?v1 (on_event this (\<lambda>h. preWrite h ctx ''Bench.bench'')) (Inr ()) ?v2"
    using observes_on_event(4) [OF obs, of ?v1] by simp
  have f: "yields view ?v3 (flush outp) (Inr ()) ?v4"
    using wr.flush [of ?v3] v(2) by (cases v) simp
  have e: "yields view ?v4 (on_event this (\<lambda>h. postWrite h ctx ''Bench.bench'' n)) (Inr ()) ?v5" for n
    using observes_on_event(5) [OF obs, of ?v4] by simp
  have "yields view ?v2 (seqP (writeMessageBegin outp ''bench'' T_REPLY q) (
           bindP (Bench_bench_result_write outp ?r) (\<lambda>_.
           seqP (writeMessageEnd outp) (
           bindP (writeEnd outp) (\<lambda>bytes.
           seqP (flush outp) (
           on_event this (\<lambda>h. postWrite h ctx ''Bench.bench'' bytes))))))) (Inr ()) ?v5"
    by (rule write_message_then [OF wr.Bench_bench_result_write_writes [of "out_depth ?v2" ?r]])
      (simp, rule yields_seq [OF f e])
  from yields_seq [OF p this] show ?thesis
    by (intro yields_bind [OF yields_catch [OF yields_bind [OF c yields_return]]])
      (simp add: Inr Bench_bench_result_ctor_def)
qed

text \<open>The part of \<open>process_bench\<close> before it: the context, the arguments, the end of the message.\<close>

lemma before_handler:
  assumes obs: "observes view this ev" and v: "incoming v = encode (VStruct fs) @ Message_end # ts"
      "levels (VStruct fs) \<le> in_depth v"
  obtains ctx n v1 v2 v3 v4 where
    "yields view v (case eventHandler this of None \<Rightarrow> returnP 0
      | Some h \<Rightarrow> getContext h ''Bench.bench'' c) (Inr ctx) v1"
    "yields view v1 (on_event this (\<lambda>h. preRead h ctx ''Bench.bench'')) (Inr ()) v2"
    "yields view v2 (Bench_bench_args_read inp Bench_bench_args_ctor)
      (Inr (fold args_field fs Bench_bench_args_ctor, costs cost (encode (VStruct fs)))) v3"
    "yields view v3 (readMessageEnd inp) (Inr ()) v4"
    "yields view v4 (readEnd inp) (Inr n) v4"
    "yields view v4 (on_event this (\<lambda>h. postRead h ctx ''Bench.bench'' n)) (Inr ())
      (v\<lparr>incoming := ts, app := before_call ev (app v)\<rparr>)"
proof -
  let ?v1 = "v\<lparr>app := ev Get_context (app v)\<rparr>"
  let ?v2 = "v\<lparr>app := ev Pre_read (ev Get_context (app v))\<rparr>"
  let ?v3 = "?v2\<lparr>incoming := Message_end # ts\<rparr>" and ?v4 = "?v2\<lparr>incoming := ts\<rparr>"
  obtain ctx where c: "yields view v (case eventHandler this of None \<Rightarrow> returnP 0
      | Some h \<Rightarrow> getContext h ''Bench.bench'' c) (Inr ctx) ?v1"
    using observes_context(1) [OF obs] by blast
  have p: "yields view ?v1 (on_event this (\<lambda>h. preRead h ctx ''Bench.bench'')) (Inr ()) ?v2"
    using observes_on_event(1) [OF obs, of ?v1] by simp
  have a: "yields view ?v2 (Bench_bench_args_read inp Bench_bench_args_ctor)
      (Inr (fold args_field fs Bench_bench_args_ctor, costs cost (encode (VStruct fs)))) ?v3"
    using rd.Bench_bench_args_read_yields [of ?v2 fs "Message_end # ts"] v by simp
  have m: "yields view ?v3 (readMessageEnd inp) (Inr ()) ?v4"
    using rd.readMessageEnd [of ?v3 ts] by simp
  obtain n where e: "yields view ?v4 (readEnd inp) (Inr n) ?v4"
    using rd.readEnd by blast
  have "yields view ?v4 (on_event this (\<lambda>h. postRead h ctx ''Bench.bench'' n)) (Inr ())
      (v\<lparr>incoming := ts, app := before_call ev (app v)\<rparr>)"
    using observes_on_event(2) [OF obs, of ?v4] by (cases v) (simp add: before_call_def)
  with c p a m e show thesis
    by (rule that)
qed

lemma process_bench_yields:
  assumes obs: "observes view this ev" and v: "incoming v = encode (VStruct fs) @ Message_end # ts"
      "levels (VStruct fs) \<le> in_depth v" "unflushed v = []"
    and handler: "serves view (iface this) (args_arg (fold args_field fs Bench_bench_args_ctor))
      (before_call ev (app v)) res a'"
  shows "yields view v (process_bench what this q inp outp c) (Inr ())
    (v\<lparr>incoming := ts, flushed := flushed v @ reply_body what res q, app := after_call ev res a'\<rparr>)"
proof -
  let ?v5 = "v\<lparr>incoming := ts, app := before_call ev (app v)\<rparr>"
  let ?v6 = "?v5\<lparr>flushed := flushed ?v5 @ reply_body what res q,
      app := (case res of Inl e \<Rightarrow> ev Handler_error a' | Inr r \<Rightarrow> ev Post_write (ev Pre_write a'))\<rparr>"
  have free: "view (TProcessorContextFreer this ctx w) =
      v\<lparr>incoming := ts, flushed := flushed v @ reply_body what res q, app := after_call ev res a'\<rparr>"
    if "view w = ?v6" for w ctx
    using observes_context(2) [OF obs] that by (cases res; cases v) simp_all
  have "app ?v5 = before_call ev (app v)" "unflushed ?v5 = []"
    using v(3) by simp_all
  note r = call_and_reply [OF obs handler this]
  show ?thesis
  proof (rule before_handler [OF obs v(1,2), of c], goal_cases)
    case front: (1 ctx n v1 v2 v3 v4)
    show ?case
      unfolding process_bench_def
      by (rule yields_bind [OF front(1)], rule yields_finally, rule yields_seq [OF front(2)],
          rule yields_bind [OF front(3)], unfold split, rule yields_seq [OF front(4)],
          rule yields_bind [OF front(5)], rule yields_seq [OF front(6)], rule r, rule free)
  qed
qed

lemma dispatchCall_bench:
  assumes "observes view this ev" and "incoming v = encode (VStruct fs) @ Message_end # ts"
    and "levels (VStruct fs) \<le> in_depth v" and "unflushed v = []"
    and "serves view (iface this) (args_arg (fold args_field fs Bench_bench_args_ctor)) (before_call ev (app v)) res a'"
    and "map_of (processMap this) ''bench'' = Some Process_bench"
  shows "yields view v (dispatchCall what this inp outp ''bench'' q c) (Inr True)
    (v\<lparr>incoming := ts, flushed := flushed v @ reply_body what res q, app := after_call ev res a'\<rparr>)"
  unfolding dispatchCall_def assms(6) option.case process_function.case
  by (rule yields_seq [OF process_bench_yields [OF assms(1-5)]], rule yields_return)

lemma dispatchCall_unknown:
  assumes "incoming v = encode (VStruct fs) @ Message_end # ts" and "levels (VStruct fs) \<le> in_depth v"
    and "unflushed v = []" and "map_of (processMap this) fname = None"
  shows "yields view v (dispatchCall what this inp outp fname q c) (Inr True)
    (v\<lparr>incoming := ts, flushed := flushed v @ [Message fname T_EXCEPTION q,
       Exception_token UNKNOWN_METHOD (''Invalid method name: '' @ [CHR 0x27] @ fname @ [CHR 0x27]), Message_end]\<rparr>)"
proof -
  let ?m = "''Invalid method name: '' @ [CHR 0x27] @ fname @ [CHR 0x27]"
  let ?v = "v\<lparr>incoming := ts\<rparr>"
  let ?v' = "v\<lparr>incoming := ts, flushed := flushed v @ [Message fname T_EXCEPTION q, Exception_token UNKNOWN_METHOD ?m, Message_end]\<rparr>"
  have d: "yields view v (drop_message inp) (Inr ()) ?v"
    using assms(1,2) by (rule drop_message_yields)
  have "?v\<lparr>unflushed := [], flushed := flushed ?v @ unflushed ?v @ [Message fname T_EXCEPTION q,
      Exception_token UNKNOWN_METHOD ?m, Message_end]\<rparr> = ?v'"
    using assms(3) by (cases v) simp
  then have x: "yields view ?v (write_exception outp fname q UNKNOWN_METHOD ?m) (Inr ()) ?v'"
    using write_exception_yields [of ?v fname q UNKNOWN_METHOD ?m] by (simp only:)
  show ?thesis
    unfolding dispatchCall_def assms(4) option.case
    by (rule yields_seq [OF d], rule yields_seq [OF x], rule yields_return)
qed

end

section \<open>BenchMultiface\<close>

text \<open>All interfaces in order; the last one's answer.\<close>

fun ask_all :: "'w BenchIf list \<Rightarrow> 'w BenchIf" where
  "ask_all [] arg = stopP (Undef Index_out_of_range)"
| "ask_all [h] arg = h arg"
| "ask_all (h # hs) arg = bindP (h arg) (\<lambda>_. ask_all hs arg)"

lemma ask_all_Cons: "hs \<noteq> [] \<Longrightarrow> ask_all (h # hs) arg = bindP (h arg) (\<lambda>_. ask_all hs arg)"
  by (cases hs) simp_all

lemma of_nat_word_less: "k < j \<Longrightarrow> j < 2 ^ 64 \<Longrightarrow> (of_nat k :: 64 word) < of_nat j"
  by (simp add: word_less_nat_alt unat_of_nat)

lemma loopP_bind_continue:
  assumes "body s = bindP m (\<lambda>x. returnP (Continue (f x)))"
  shows "loopP body s w = bindP m (\<lambda>x. loopP body (f x)) w"
  by (subst loopP.simps) (auto simp: assms bindP_def returnP_def split: option.split prod.split sum.split)

lemma multiface_loop:
  fixes ifaces :: "'w BenchIf list"
  assumes "length ifaces < 2 ^ 64" and "k < length ifaces"
  shows "bindP (loopP (\<lambda>i :: 64 word.
         if i < of_nat (length ifaces) - 1 then
           bindP (pureP (vector_at ifaces (uint i))) (\<lambda>h.
           bindP (h arg) (\<lambda>_.
           returnP (Continue (i + 1))))
         else returnP (Break i)) (of_nat k)) (\<lambda>i.
     bindP (pureP (vector_at ifaces (uint i))) (\<lambda>h. h arg)) w = ask_all (drop k ifaces) arg w"
  (is "bindP (loopP ?body _) ?k w = _")
  using assms(2)
proof (induction "length ifaces - Suc k" arbitrary: k w)
  case 0
  then have k: "Suc k = length ifaces"
    by simp
  have u: "uint (of_nat k :: 64 word) = int k"
    using assms(1) k by (simp add: uint_nat unat_of_nat)
  have "\<not> (of_nat k :: 64 word) < of_nat (length ifaces) - 1"
    by (simp flip: k)
  then have "loopP ?body (of_nat k) w = Some (Inr (of_nat k), w)"
    by (intro loopP_break) (simp add: returnP_def)
  moreover have "drop k ifaces = [ifaces ! k]"
    using k by (metis Cons_nth_drop_Suc drop_all lessI order_refl)
  moreover have "vector_at ifaces (int k) = Inr (ifaces ! k)"
    using 0 by (simp add: vector_at_def)
  ultimately show ?case
    by (simp add: bindP_def pureP_def u)
next
  case (Suc n)
  then have k: "Suc k < length ifaces"
    by simp
  have u: "uint (of_nat k :: 64 word) = int k"
    using assms(1) k by (simp add: uint_nat unat_of_nat)
  have at: "vector_at ifaces (int k) = Inr (ifaces ! k)"
    using k by (simp add: vector_at_def)
  have "(of_nat (length ifaces) :: 64 word) - 1 = of_nat (length ifaces - 1)"
    using k by (simp add: of_nat_diff)
  moreover have "(of_nat k :: 64 word) < of_nat (length ifaces - 1)"
    using assms(1) k by (intro of_nat_word_less) simp_all
  ultimately have "(of_nat k :: 64 word) < of_nat (length ifaces) - 1"
    by (simp only:)
  then have "?body (of_nat k) = bindP ((ifaces ! k) arg) (\<lambda>_. returnP (Continue (of_nat (Suc k))))"
    by (simp add: u at add.commute)
  then have "loopP ?body (of_nat k) = bindP ((ifaces ! k) arg) (\<lambda>_. loopP ?body (of_nat (Suc k)))"
    by (intro ext) (rule loopP_bind_continue)
  moreover have ih: "bindP (loopP ?body (of_nat (Suc k))) (\<lambda>i. bindP (pureP (vector_at ifaces (uint i))) (\<lambda>h. h arg)) =
      ask_all (drop (Suc k) ifaces) arg"
    using Suc.hyps(2) k by (intro ext Suc.hyps(1)) simp_all
  ultimately have "bindP (loopP ?body (of_nat k)) (\<lambda>i. bindP (pureP (vector_at ifaces (uint i))) (\<lambda>h. h arg)) =
      bindP ((ifaces ! k) arg) (\<lambda>_. bindP (loopP ?body (of_nat (Suc k))) (\<lambda>i.
        bindP (pureP (vector_at ifaces (uint i))) (\<lambda>h. h arg)))"
    by (simp only: bind_assoc)
  also have "\<dots> = bindP ((ifaces ! k) arg) (\<lambda>_. ask_all (drop (Suc k) ifaces) arg)"
    by (simp only: ih)
  also have "\<dots> = ask_all (drop k ifaces) arg"
    using k ask_all_Cons [of "drop (Suc k) ifaces" "ifaces ! k"] by (simp flip: Cons_nth_drop_Suc)
  finally show ?case
    by (rule fun_cong)
qed

lemma BenchMultiface_bench_ask_all:
  assumes "length ifaces < 2 ^ 64"
  shows "BenchMultiface_bench ifaces arg = ask_all ifaces arg"
proof (cases "ifaces = []")
  case True
  have "BenchMultiface_bench [] arg w = Some (Inl (Undef Index_out_of_range), w)" for w :: 'a
  proof -
    have "(0 :: 64 word) < 0 - 1"
      by (simp add: word_gt_0)
    then have "loopP (\<lambda>i :: 64 word. if i < 0 - 1 then
           bindP (pureP (vector_at [] (uint i))) (\<lambda>h :: 'a BenchIf. bindP (h arg) (\<lambda>_. returnP (Continue (i + 1))))
         else returnP (Break i)) 0 w = Some (Inl (Undef Index_out_of_range), w)"
      by (intro loopP_stop) (simp add: vector_at_def stopP_def bindP_def)
    then show ?thesis
      unfolding BenchMultiface_bench_def Let_def by (intro bindP_stopI) simp
  qed
  with True show ?thesis
    by (simp add: fun_eq_iff stopP_def)
next
  case False
  then have "0 < length ifaces"
    by simp
  from multiface_loop [OF assms this, of arg] show ?thesis
    by (simp add: BenchMultiface_bench_def Let_def fun_eq_iff)
qed

lemma rpc_parts:
  assumes "connection ci co cview cost" and "connection si so sview cost'"
    and "observes sview p ev" and "map_of (processMap p) ''bench'' = Some Process_bench"
    and "serves sview (iface p) (timing_all_set m) (before_call ev a) res a'"
  shows "\<exists>call reply.
    (\<forall>v. 2 \<le> out_depth v \<longrightarrow> unflushed v = [] \<longrightarrow>
       yields cview v (BenchClient_send_bench \<lparr>iprot = ci, oprot = co\<rparr> m) (Inr ())
         (v\<lparr>flushed := flushed v @ Message ''bench'' T_CALL 0 # call\<rparr>)) \<and>
    (\<forall>v ts. incoming v = call @ ts \<longrightarrow> 3 \<le> in_depth v \<longrightarrow> unflushed v = [] \<longrightarrow> app v = a \<longrightarrow>
       yields sview v (dispatchCall what p si so ''bench'' 0 c) (Inr True)
         (v\<lparr>incoming := ts, flushed := flushed v @ reply, app := after_call ev res a'\<rparr>)) \<and>
    (\<forall>v ts. incoming v = reply @ ts \<longrightarrow> 2 \<le> in_depth v \<longrightarrow>
       yields cview v (BenchClient_recv_bench \<lparr>iprot = ci, oprot = co\<rparr>)
         (case res of Inr r \<Rightarrow> Inr r | Inl e \<Rightarrow> Inl (Throw (TApplicationException UNKNOWN (what e))))
         (v\<lparr>incoming := ts\<rparr>))"
proof -
  obtain fs where fs: "args_value m = VStruct fs"
    by (simp add: args_value_def)
  let ?call = "encode (VStruct fs) @ [Message_end]" and ?reply = "reply_body what res 0"
  have "yields cview v (BenchClient_send_bench \<lparr>iprot = ci, oprot = co\<rparr> m) (Inr ())
      (v\<lparr>flushed := flushed v @ Message ''bench'' T_CALL 0 # ?call\<rparr>)" if "2 \<le> out_depth v" "unflushed v = []" for v
    using connection.send_bench_yields [OF assms(1) that(1), of m] that(2) by (cases v) (simp add: fs)
  moreover have "yields sview v (dispatchCall what p si so ''bench'' 0 c) (Inr True)
      (v\<lparr>incoming := ts, flushed := flushed v @ ?reply, app := after_call ev res a'\<rparr>)"
    if "incoming v = ?call @ ts" "3 \<le> in_depth v" "unflushed v = []" "app v = a" for v ts
    using that assms fold_args_value [OF fs] levels_values(2) [of m]
    by (intro connection.dispatchCall_bench [of si so sview cost' p ev v fs ts]) (simp_all add: fs)
  moreover have "yields cview v (BenchClient_recv_bench \<lparr>iprot = ci, oprot = co\<rparr>)
      (case res of Inr r \<Rightarrow> Inr r | Inl e \<Rightarrow> Inl (Throw (TApplicationException UNKNOWN (what e)))) (v\<lparr>incoming := ts\<rparr>)"
    if "incoming v = ?reply @ ts" "2 \<le> in_depth v" for v ts
  proof (cases res)
    case (Inl e)
    with that show ?thesis
      using connection.recv_bench_exception [OF assms(1), of v "''bench''" 0] by simp
  next
    case (Inr r)
    have "reply_outcome [(0, VI64 r)] = Inr r"
      by (simp add: reply_outcome_def)
    with that Inr show ?thesis
      using connection.recv_bench_reply [OF assms(1), of v 0 "[(0, VI64 r)]" ts] by (simp add: result_value_def)
  qed
  ultimately show ?thesis
    by (intro exI [of _ ?call] exI [of _ ?reply]) simp
qed

section \<open>Properties\<close>

text \<open>
  C1: a remote call, end to end, over any two connections that keep the laws: what the
  client's \<open>send_bench\<close> flushes is a call message whose body, given to the server's
  \<open>dispatchCall\<close>, is consumed, runs the handler once on the client's message (all flags set)
  between the event handler's callbacks in their order, and flushes a reply; and that reply
  makes the client's \<open>recv_bench\<close> return the handler's answer, or throw a
  \<open>TApplicationException\<close> with the text of the handler's exception.
\<close>

theorem thrift_rpc:
  assumes "connection ci co cview cost" and "connection si so sview cost'"
    and "observes sview p ev" and "map_of (processMap p) ''bench'' = Some Process_bench"
    and "serves sview (iface p) (timing_all_set m) (before_call ev a) res a'"
  shows "\<exists>call reply.
    (\<forall>v. 2 \<le> out_depth v \<longrightarrow> unflushed v = [] \<longrightarrow>
       yields cview v (BenchClient_send_bench \<lparr>iprot = ci, oprot = co\<rparr> m) (Inr ())
         (v\<lparr>flushed := flushed v @ Message ''bench'' T_CALL 0 # call\<rparr>)) \<and>
    (\<forall>v ts. incoming v = call @ ts \<longrightarrow> 3 \<le> in_depth v \<longrightarrow> unflushed v = [] \<longrightarrow> app v = a \<longrightarrow>
       yields sview v (dispatchCall what p si so ''bench'' 0 c) (Inr True)
         (v\<lparr>incoming := ts, flushed := flushed v @ reply, app := after_call ev res a'\<rparr>)) \<and>
    (\<forall>v ts. incoming v = reply @ ts \<longrightarrow> 2 \<le> in_depth v \<longrightarrow>
       yields cview v (BenchClient_recv_bench \<lparr>iprot = ci, oprot = co\<rparr>)
         (case res of Inr r \<Rightarrow> Inr r | Inl e \<Rightarrow> Inl (Throw (TApplicationException UNKNOWN (what e))))
         (v\<lparr>incoming := ts\<rparr>))"
  using assms by (rule rpc_parts)

text \<open>The witness: two streams in memory, and the handler \<open>BenchNull\<close>.\<close>

lemma memory_connection: "connection (memory_protocol cost) (memory_protocol cost) (\<lambda>w. w) cost"
  by (intro connection.intro memory_protocol_in memory_protocol_out)

lemma unit_connection:
  "connection (memory_protocol unit_cost) (memory_protocol unit_cost) (\<lambda>w :: unit port. w) unit_cost"
  by (rule memory_connection)

interpretation memory_conn: connection "memory_protocol cost" "memory_protocol cost" "\<lambda>w. w" cost for cost :: "token \<Rightarrow> u32"
  by (rule memory_connection)

lemma app_unit: "(v :: unit port)\<lparr>app := ()\<rparr> = v"
  by (cases v) simp

lemma observes_ctor: "observes view (BenchProcessor_ctor h) (\<lambda>e a. a)"
  by (simp add: observes_def BenchProcessor_ctor_def)

theorem thrift_rpc_witness:
  "\<exists>call reply.
     yields (\<lambda>w. w) (port_with []) (BenchClient_send_bench (BenchClient_ctor (memory_protocol unit_cost)) timing_ctor)
       (Inr ()) ((port_with [])\<lparr>flushed := Message ''bench'' T_CALL 0 # call\<rparr>) \<and>
     yields (\<lambda>w. w) (port_with call)
       (dispatchCall (\<lambda>e. []) (BenchProcessor_ctor BenchNull_bench) (memory_protocol unit_cost) (memory_protocol unit_cost) ''bench'' 0 0)
       (Inr True) ((port_with [])\<lparr>flushed := reply\<rparr>) \<and>
     yields (\<lambda>w. w) (port_with reply) (BenchClient_recv_bench (BenchClient_ctor (memory_protocol unit_cost)))
       (Inr (i64 0)) (port_with [])"
proof -
  have serves: "serves (\<lambda>w. w) (iface (BenchProcessor_ctor BenchNull_bench)) (timing_all_set timing_ctor)
      (before_call (\<lambda>e a. a) ()) (Inr (i64 0)) ()"
    by (simp add: serves_def BenchProcessor_ctor_def BenchNull_bench_def yields_return app_unit)
  have map: "map_of (processMap (BenchProcessor_ctor BenchNull_bench)) ''bench'' = Some Process_bench"
    by (simp add: BenchProcessor_ctor_def)
  have app: "app (port_with ts) = ()" for ts
    by simp
  note rpc = thrift_rpc [OF unit_connection unit_connection observes_ctor map serves,
      where what = "\<lambda>e. []" and c = 0]
  obtain call reply where
    "\<forall>v :: unit port. 2 \<le> out_depth v \<longrightarrow> unflushed v = [] \<longrightarrow>
       yields (\<lambda>w. w) v (BenchClient_send_bench \<lparr>iprot = memory_protocol unit_cost, oprot = memory_protocol unit_cost\<rparr> timing_ctor)
         (Inr ()) (v\<lparr>flushed := flushed v @ Message ''bench'' T_CALL 0 # call\<rparr>)"
    "\<forall>v ts. incoming v = call @ ts \<longrightarrow> 3 \<le> in_depth v \<longrightarrow> unflushed v = [] \<longrightarrow> app v = () \<longrightarrow>
       yields (\<lambda>w. w) v (dispatchCall (\<lambda>e. []) (BenchProcessor_ctor BenchNull_bench) (memory_protocol unit_cost)
           (memory_protocol unit_cost) ''bench'' 0 0) (Inr True)
         (v\<lparr>incoming := ts, flushed := flushed v @ reply, app := after_call (\<lambda>e a. a) (Inr (i64 0)) ()\<rparr>)"
    "\<forall>(v :: unit port) ts. incoming v = reply @ ts \<longrightarrow> 2 \<le> in_depth v \<longrightarrow>
       yields (\<lambda>w. w) v (BenchClient_recv_bench \<lparr>iprot = memory_protocol unit_cost, oprot = memory_protocol unit_cost\<rparr>)
         (case (Inr (i64 0) :: exn + int64) of Inr r \<Rightarrow> Inr r | Inl e \<Rightarrow> Inl (Throw (TApplicationException UNKNOWN []))) (v\<lparr>incoming := ts\<rparr>)"
    using rpc by (elim exE conjE) (rule that)
  note this(1) [rule_format, of "port_with []"] this(2) [rule_format, of "port_with call" "[]"]
    this(3) [rule_format, of "port_with reply" "[]"]
  then show ?thesis
    by (intro exI [of _ call] exI [of _ reply]) (simp add: BenchClient_ctor_def port_with_def)
qed

text \<open>
  C36: a call of a method the processor does not have: its arguments are skipped, no handler
  runs and the state of the application is untouched, and the reply makes the client throw
  \<open>UNKNOWN_METHOD\<close> with the method's name.
\<close>

theorem unknown_method:
  assumes "connection ci co cview cost" and "connection si so sview cost'" and "map_of (processMap p) fname = None"
  shows "\<exists>reply.
    (\<forall>v fs ts. incoming v = encode (VStruct fs) @ Message_end # ts \<longrightarrow> levels (VStruct fs) \<le> in_depth v \<longrightarrow>
       unflushed v = [] \<longrightarrow>
       yields sview v (dispatchCall what p si so fname q c) (Inr True) (v\<lparr>incoming := ts, flushed := flushed v @ reply\<rparr>)) \<and>
    (\<forall>v ts. incoming v = reply @ ts \<longrightarrow>
       yields cview v (BenchClient_recv_bench \<lparr>iprot = ci, oprot = co\<rparr>)
         (Inl (Throw (TApplicationException UNKNOWN_METHOD
           (''Invalid method name: '' @ [CHR 0x27] @ fname @ [CHR 0x27])))) (v\<lparr>incoming := ts\<rparr>))"
proof -
  let ?reply = "[Message fname T_EXCEPTION q, Exception_token UNKNOWN_METHOD
      (''Invalid method name: '' @ [CHR 0x27] @ fname @ [CHR 0x27]), Message_end]"
  have "yields sview v (dispatchCall what p si so fname q c) (Inr True) (v\<lparr>incoming := ts, flushed := flushed v @ ?reply\<rparr>)"
    if "incoming v = encode (VStruct fs) @ Message_end # ts" "levels (VStruct fs) \<le> in_depth v" "unflushed v = []" for v fs ts
    using connection.dispatchCall_unknown [OF assms(2) that assms(3)] .
  moreover have "yields cview v (BenchClient_recv_bench \<lparr>iprot = ci, oprot = co\<rparr>)
      (Inl (Throw (TApplicationException UNKNOWN_METHOD (''Invalid method name: '' @ [CHR 0x27] @ fname @ [CHR 0x27]))))
      (v\<lparr>incoming := ts\<rparr>)" if "incoming v = ?reply @ ts" for v ts
    using connection.recv_bench_exception [OF assms(1), of v fname q] that by simp
  ultimately show ?thesis
    by blast
qed

theorem unknown_method_witness:
  "\<exists>reply. yields (\<lambda>w. w) (port_with reply) (BenchClient_recv_bench (BenchClient_ctor (memory_protocol unit_cost)))
     (Inl (Throw (TApplicationException UNKNOWN_METHOD (''Invalid method name: '' @ [CHR 0x27] @ ''x'' @ [CHR 0x27])))) (port_with [])"
proof -
  have map: "map_of (processMap (BenchProcessor_ctor BenchNull_bench)) ''x'' = None"
    by (simp add: BenchProcessor_ctor_def)
  obtain reply where "\<forall>(v :: unit port) ts. incoming v = reply @ ts \<longrightarrow>
       yields (\<lambda>w. w) v (BenchClient_recv_bench \<lparr>iprot = memory_protocol unit_cost, oprot = memory_protocol unit_cost\<rparr>)
         (Inl (Throw (TApplicationException UNKNOWN_METHOD (''Invalid method name: '' @ [CHR 0x27] @ ''x'' @ [CHR 0x27]))))
         (v\<lparr>incoming := ts\<rparr>)"
    using unknown_method [OF unit_connection unit_connection map] by blast
  from this [rule_format, of "port_with reply" "[]"] show ?thesis
    by (intro exI [of _ reply]) (simp add: BenchClient_ctor_def)
qed

text \<open>
  \<open>recv_bench\<close> on any reply struct, from any server and with any sequence id: it
  returns the last 64-bit field 0, and throws \<open>MISSING_RESULT\<close> when there is none; the
  uninitialised \<open>_return\<close> is never read.
\<close>

theorem recv_bench_any_reply:
  assumes "connection ci co view cost"
    and "incoming v = Message ''bench'' T_REPLY q # encode (VStruct fs) @ Message_end # ts"
    and "levels (VStruct fs) \<le> in_depth v"
  shows "yields view v (BenchClient_recv_bench \<lparr>iprot = ci, oprot = co\<rparr>)
    (case presult_success (fold presult_field fs Bench_bench_presult_ctor) of
       None \<Rightarrow> Inl (Throw (TApplicationException MISSING_RESULT ''bench failed: unknown result''))
     | Some x \<Rightarrow> Inr x) (v\<lparr>incoming := ts\<rparr>)"
  using connection.recv_bench_reply [OF assms] by (simp add: reply_outcome_def)

theorem recv_bench_any_reply_witness:
  "yields (\<lambda>w. w) (port_with (Message ''bench'' T_REPLY 7 # encode (VStruct [(0, VI64 (i64 1)), (0, VString ''x''), (0, VI64 (i64 2))]) @ [Message_end]))
     (BenchClient_recv_bench (BenchClient_ctor (memory_protocol unit_cost))) (Inr (i64 2)) (port_with [])"
  using recv_bench_any_reply [OF unit_connection,
      of "port_with (Message ''bench'' T_REPLY 7 # encode (VStruct [(0, VI64 (i64 1)), (0, VString ''x''), (0, VI64 (i64 2))]) @ [Message_end])"
        7 "[(0, VI64 (i64 1)), (0, VString ''x''), (0, VI64 (i64 2))]" "[]"]
  by (simp add: BenchClient_ctor_def)



text \<open>
  C39: \<open>BenchMultiface\<close> asks every handler in order and returns the last one's answer; the
  first exception ends it. Without handlers the unsigned bound \<open>sz - 1\<close> wraps around and
  the first access is out of range.
\<close>

theorem BenchMultiface_spec:
  assumes "length ifaces < 2 ^ 64"
  shows "BenchMultiface_bench ifaces arg = ask_all ifaces arg"
  using assms by (rule BenchMultiface_bench_ask_all)

theorem BenchMultiface_spec_witness:
  "BenchMultiface_bench [BenchNull_bench, BenchNull_bench] timing_ctor () = Some (Inr (i64 0), ()) \<and>
   BenchMultiface_bench [] timing_ctor () = Some (Inl (Undef Index_out_of_range), ())"
  using fun_cong [OF BenchMultiface_spec [of "[BenchNull_bench, BenchNull_bench] :: unit BenchIf list" timing_ctor], of "()"]
    fun_cong [OF BenchMultiface_spec [of "[] :: unit BenchIf list" timing_ctor], of "()"]
  by (simp add: BenchNull_bench_def returnP_def bindP_def stopP_def)

end
