(* ===== verification/Thrift_Concurrent.thy ===== *)
theory Thrift_Concurrent
  imports Thrift_Rpc
begin

text \<open>
  \<open>BenchConcurrentClient\<close> of \<open>thrift-bench/gen-cpp/Bench.cpp\<close>: a client whose connection
  several threads share. The library's \<open>TConcurrentClientSyncInfo\<close> and its two sentries are
  parameters; the theorems say what one thread's \<open>recv_bench\<close> makes of whatever the other
  threads leave it.
\<close>

section \<open>The client\<close>

text \<open>
  The synchronisation object: \<open>sendEnter\<close> and \<open>sendLeave\<close> are the constructor and the
  destructor of \<open>TConcurrentSendSentry\<close>, \<open>recvEnter\<close> and \<open>recvLeave\<close> those of
  \<open>TConcurrentRecvSentry\<close>; the destructors see whether \<open>commit\<close> was called. \<open>getPending\<close>
  gives the message header another thread has left, if any.
\<close>

record 'w sync_info =
  generateSeqId :: "('w, int32) prog"
  sendEnter :: "('w, unit) prog"
  sendLeave :: "bool \<Rightarrow> 'w \<Rightarrow> 'w"
  recvEnter :: "int32 \<Rightarrow> ('w, unit) prog"
  recvLeave :: "int32 \<Rightarrow> bool \<Rightarrow> 'w \<Rightarrow> 'w"
  getPending :: "('w, (string \<times> mtype \<times> int32) option) prog"
  updatePending :: "string \<Rightarrow> mtype \<Rightarrow> int32 \<Rightarrow> ('w, unit) prog"
  waitForWork :: "int32 \<Rightarrow> ('w, unit) prog"

text \<open>
  A sentry's scope. The body gives the state of the sentry at its end and what it returns or
  throws; a call of the body that throws leaves the scope uncommitted.
\<close>

definition sentry :: "('w, unit) prog \<Rightarrow> (bool \<Rightarrow> 'w \<Rightarrow> 'w) \<Rightarrow> ('w, bool \<times> (stop + 'a)) prog \<Rightarrow> ('w, 'a) prog" where
  "sentry enter leave body = seqP enter (\<lambda>w. case body w of
     None \<Rightarrow> None
   | Some (Inr (committed, r), w') \<Rightarrow> Some (r, leave committed w')
   | Some (Inl (Throw e), w') \<Rightarrow> Some (Inl (Throw e), leave False w')
   | Some (Inl e, w') \<Rightarrow> Some (Inl e, w'))"

record 'w BenchConcurrentClient = "'w BenchClient" +
  sync :: "'w sync_info"

definition BenchConcurrentClient_ctor :: "'w tprotocol \<Rightarrow> 'w sync_info \<Rightarrow> 'w BenchConcurrentClient" where
  "BenchConcurrentClient_ctor prot sy = \<lparr>iprot = prot, oprot = prot, sync = sy\<rparr>"

definition BenchConcurrentClient_ctor2 :: "'w tprotocol \<Rightarrow> 'w tprotocol \<Rightarrow> 'w sync_info \<Rightarrow> 'w BenchConcurrentClient" where
  "BenchConcurrentClient_ctor2 inp outp sy = \<lparr>iprot = inp, oprot = outp, sync = sy\<rparr>"

definition concurrent_getInputProtocol :: "'w BenchConcurrentClient \<Rightarrow> 'w tprotocol" where
  "concurrent_getInputProtocol this = iprot this"

definition concurrent_getOutputProtocol :: "'w BenchConcurrentClient \<Rightarrow> 'w tprotocol" where
  "concurrent_getOutputProtocol this = oprot this"

definition BenchConcurrentClient_send_bench :: "'w BenchConcurrentClient \<Rightarrow> timing \<Rightarrow> ('w, int32) prog" where
  "BenchConcurrentClient_send_bench this arg =
     (let outp = oprot this in
     bindP (generateSeqId (sync this)) (\<lambda>cseqid.
     sentry (sendEnter (sync this)) (sendLeave (sync this)) (
       seqP (writeMessageBegin outp ''bench'' T_CALL cseqid) (
       bindP (Bench_bench_pargs_write outp \<lparr>pargs_arg = arg\<rparr>) (\<lambda>_.
       seqP (writeMessageEnd outp) (
       bindP (writeEnd outp) (\<lambda>_.
       seqP (flush outp) (
       returnP (True, Inr cseqid)))))))))"

text \<open>What the method does with its own message, after the header.\<close>

definition recv_own :: "'w tprotocol \<Rightarrow> string \<Rightarrow> mtype \<Rightarrow> ('w, bool \<times> (stop + int64)) prog" where
  "recv_own inp fname mtype =
     (if mtype = T_EXCEPTION then
        bindP (recv_exception inp) (\<lambda>x. returnP (True, Inl (Throw x)))
      else
      seqP (if mtype \<noteq> T_REPLY then drop_message inp else returnP ()) (
      if fname \<noteq> ''bench'' then
        seqP (drop_message inp) (returnP (False, Inl (Throw (TProtocolException INVALID_DATA))))
      else
      bindP (recv_result inp) (\<lambda>result.
      returnP (presult_isset_success result, result_or_throw result))))"

text \<open>
  One turn of the loop: take the header of the next message, from the pending slot or the
  stream. For an own message, what the method ends with; for another thread's, leave its
  header in the slot and wait.
\<close>

definition recv_turn ::
    "'w BenchConcurrentClient \<Rightarrow> int32 \<Rightarrow> unit \<Rightarrow> ('w, (unit, bool \<times> (stop + int64)) ctl) prog" where
  "recv_turn this seqid = (\<lambda>_.
     let inp = iprot this in
     bindP (getPending (sync this)) (\<lambda>pending.
     bindP (case pending of None \<Rightarrow> readMessageBegin inp | Some header \<Rightarrow> returnP header) (\<lambda>(fname, mtype, rseqid).
     if seqid = rseqid then
       bindP (recv_own inp fname mtype) (\<lambda>outcome. returnP (Break outcome))
     else
     seqP (updatePending (sync this) fname mtype rseqid) (
     seqP (waitForWork (sync this) seqid) (
     returnP (Continue ()))))))"

definition BenchConcurrentClient_recv_bench :: "'w BenchConcurrentClient \<Rightarrow> int32 \<Rightarrow> ('w, int64) prog" where
  "BenchConcurrentClient_recv_bench this seqid =
     sentry (recvEnter (sync this) seqid) (recvLeave (sync this) seqid) (loopP (recv_turn this seqid) ())"

definition BenchConcurrentClient_bench :: "'w BenchConcurrentClient \<Rightarrow> 'w BenchIf" where
  "BenchConcurrentClient_bench this arg =
     bindP (BenchConcurrentClient_send_bench this arg) (\<lambda>seqid.
     BenchConcurrentClient_recv_bench this seqid)"

section \<open>Waiting for the own reply\<close>

text \<open>
  The turns of a thread that waits for sequence id \<open>q\<close>: \<open>own_turn v h v'\<close> says that from
  view \<open>v\<close> the loop comes to its own message's header \<open>h\<close>, after any number of other
  threads' messages, with view \<open>v'\<close>. What happens during \<open>waitForWork\<close> (other threads read
  and write) is part of that call's effect on the view.
\<close>

inductive own_turn :: "'w BenchConcurrentClient \<Rightarrow> ('w \<Rightarrow> 'a port) \<Rightarrow> int32 \<Rightarrow> 'a port \<Rightarrow> string \<times> mtype \<Rightarrow> 'a port \<Rightarrow> bool"
  for this view q where
  own_pending: "yields view v (getPending (sync this)) (Inr (Some (n, t, q))) v' \<Longrightarrow> own_turn this view q v (n, t) v'"
| own_read: "yields view v (getPending (sync this)) (Inr None) v1 \<Longrightarrow> incoming v1 = Message n t q # ts \<Longrightarrow>
     own_turn this view q v (n, t) (v1\<lparr>incoming := ts\<rparr>)"
| other_pending: "yields view v (getPending (sync this)) (Inr (Some (n, t, r))) v1 \<Longrightarrow> r \<noteq> q \<Longrightarrow>
     yields view v1 (updatePending (sync this) n t r) (Inr ()) v2 \<Longrightarrow>
     yields view v2 (waitForWork (sync this) q) (Inr ()) v3 \<Longrightarrow>
     own_turn this view q v3 h v' \<Longrightarrow> own_turn this view q v h v'"
| other_read: "yields view v (getPending (sync this)) (Inr None) v1 \<Longrightarrow> incoming v1 = Message n t r # ts \<Longrightarrow> r \<noteq> q \<Longrightarrow>
     yields view (v1\<lparr>incoming := ts\<rparr>) (updatePending (sync this) n t r) (Inr ()) v2 \<Longrightarrow>
     yields view v2 (waitForWork (sync this) q) (Inr ()) v3 \<Longrightarrow>
     own_turn this view q v3 h v' \<Longrightarrow> own_turn this view q v h v'"

text \<open>
  What the own message's tokens \<open>ts\<close> mean for the method: its outcome, and whether the sentry is
  committed.
\<close>

inductive own_reply :: "int \<Rightarrow> string \<times> mtype \<Rightarrow> token list \<Rightarrow> stop + int64 \<Rightarrow> bool \<Rightarrow> bool" where
  exception: "own_reply d (n, T_EXCEPTION) [Exception_token k m, Message_end]
     (Inl (Throw (TApplicationException k m))) True"
| reply: "levels (VStruct fs) \<le> d \<Longrightarrow> own_reply d (''bench'', T_REPLY) (encode (VStruct fs) @ [Message_end])
     (reply_outcome fs) (\<exists>x. reply_outcome fs = Inr x)"
| bad_name: "n \<noteq> ''bench'' \<Longrightarrow> levels (VStruct fs) \<le> d \<Longrightarrow>
     own_reply d (n, T_REPLY) (encode (VStruct fs) @ [Message_end])
     (Inl (Throw (TProtocolException INVALID_DATA))) False"

lemma presult_isset_outcome:
  "presult_isset_success (fold presult_field fs Bench_bench_presult_ctor) \<longleftrightarrow> (\<exists>x. reply_outcome fs = Inr x)"
  using presult_consistent [of Bench_bench_presult_ctor fs]
  by (auto simp: reply_outcome_def Bench_bench_presult_ctor_def split: option.splits)

context connection
begin

lemma recv_own_yields:
  assumes "own_reply (in_depth v) h us res c" and "incoming v = us @ ts"
  shows "yields view v (recv_own inp (fst h) (snd h)) (Inr (c, res)) (v\<lparr>incoming := ts\<rparr>)"
  using assms
proof (induction "in_depth v" h us res c rule: own_reply.induct)
  case (exception n k m)
  have x: "yields view v (recv_exception inp) (Inr (TApplicationException k m)) (v\<lparr>incoming := ts\<rparr>)"
    using exception by (intro recv_exception_yields) simp
  show ?case
    unfolding recv_own_def by (simp, rule yields_bind [OF x], rule yields_return)
next
  case (reply fs)
  have r: "yields view v (recv_result inp) (Inr (fold presult_field fs Bench_bench_presult_ctor)) (v\<lparr>incoming := ts\<rparr>)"
    using reply by (intro recv_result_yields) simp_all
  have "yields view v (bindP (recv_result inp) (\<lambda>result.
      returnP (presult_isset_success result, result_or_throw result)))
      (Inr (\<exists>x. reply_outcome fs = Inr x, reply_outcome fs)) (v\<lparr>incoming := ts\<rparr>)"
    by (rule yields_bind [OF r]) (simp add: presult_isset_outcome result_or_throw_fold yields_return)
  then show ?case
    by (simp add: recv_own_def seqP_def)
next
  case (bad_name n fs)
  have d: "yields view v (drop_message inp) (Inr ()) (v\<lparr>incoming := ts\<rparr>)"
    using bad_name by (intro drop_message_yields) simp_all
  have "yields view v (seqP (drop_message inp) (returnP (False, Inl (Throw (TProtocolException INVALID_DATA)))))
      (Inr (False, Inl (Throw (TProtocolException INVALID_DATA)))) (v\<lparr>incoming := ts\<rparr>)"
    by (rule yields_seq [OF d], rule yields_return)
  with bad_name show ?case
    by (simp add: recv_own_def seqP_def)
qed

text \<open>One turn, from the header on.\<close>

lemma turn_own:
  assumes "iprot this = inp" and "yields view v (getPending (sync this)) (Inr p) v1"
    and "yields view v1 (case p of None \<Rightarrow> readMessageBegin inp | Some header \<Rightarrow> returnP header) (Inr (n, t, q)) v2"
    and "yields view v2 (recv_own inp n t) (Inr outcome) v3"
  shows "yields view v (recv_turn this q ()) (Inr (Break outcome)) v3"
  unfolding recv_turn_def Let_def assms(1)
  by (rule yields_bind [OF assms(2)], rule yields_bind [OF assms(3)], unfold split if_P [OF refl],
      rule yields_bind [OF assms(4)], rule yields_return)

lemma turn_other:
  assumes "iprot this = inp" and "yields view v (getPending (sync this)) (Inr p) v1"
    and "yields view v1 (case p of None \<Rightarrow> readMessageBegin inp | Some header \<Rightarrow> returnP header) (Inr (n, t, r)) v2"
    and "r \<noteq> q" and "yields view v2 (updatePending (sync this) n t r) (Inr ()) v3"
    and "yields view v3 (waitForWork (sync this) q) (Inr ()) v4"
  shows "yields view v (recv_turn this q ()) (Inr (Continue ())) v4"
  unfolding recv_turn_def Let_def assms(1)
  by (rule yields_bind [OF assms(2)], rule yields_bind [OF assms(3)], unfold split if_not_P [OF assms(4) [symmetric]],
      rule yields_seq [OF assms(5)], rule yields_seq [OF assms(6)], rule yields_return)

lemma header_read:
  "incoming v = Message n t r # ts \<Longrightarrow>
     yields view v (case None of None \<Rightarrow> readMessageBegin inp | Some header \<Rightarrow> returnP header) (Inr (n, t, r)) (v\<lparr>incoming := ts\<rparr>)"
  by (simp add: rd.readMessageBegin)

lemma header_pending:
  "yields view v (case Some h of None \<Rightarrow> readMessageBegin inp | Some header \<Rightarrow> returnP header) (Inr h) v"
  by (simp add: yields_return)

lemma recv_turns:
  assumes "own_turn this view q v h v'" and "iprot this = inp"
    and "own_reply (in_depth v') h us res c" and "incoming v' = us @ ts"
  shows "yields view v (loopP (recv_turn this q) ()) (Inr (c, res)) (v'\<lparr>incoming := ts\<rparr>)"
  using assms
proof (induction rule: own_turn.induct)
  case (own_pending v n t v')
  show ?case
    using recv_own_yields [OF own_pending(3,4)]
    by (intro yields_loop_break turn_own [OF own_pending(2,1) header_pending]) simp
next
  case (own_read v v1 n t us')
  show ?case
    using recv_own_yields [OF own_read(4,5)]
    by (intro yields_loop_break turn_own [OF own_read(3,1) header_read [OF own_read(2)]]) simp
next
  case (other_pending v n t r v1 v2 v3 h v')
  show ?case
    by (rule yields_loop_continue, rule turn_other [OF other_pending(7,1) header_pending other_pending(2-4)])
      (intro other_pending.IH other_pending.prems)
next
  case (other_read v v1 n t r us' v2 v3 h v')
  show ?case
    by (rule yields_loop_continue, rule turn_other [OF other_read(8,1) header_read [OF other_read(2)] other_read(3-5)])
      (intro other_read.IH other_read.prems)
qed

lemma send_committed:
  assumes "2 \<le> out_depth v"
  shows "yields view v
     (seqP (writeMessageBegin outp ''bench'' T_CALL q) (
      bindP (Bench_bench_pargs_write outp \<lparr>pargs_arg = m\<rparr>) (\<lambda>_.
      seqP (writeMessageEnd outp) (
      bindP (writeEnd outp) (\<lambda>_.
      seqP (flush outp) (
      returnP (True, Inr q))))))) (Inr (True, Inr q))
     (v\<lparr>unflushed := [], flushed := flushed v @ unflushed v @
        Message ''bench'' T_CALL q # encode (args_value m) @ [Message_end]\<rparr>)"
proof -
  let ?ts = "Message ''bench'' T_CALL q # encode (args_value m) @ [Message_end]"
  have w: "wr.writes 2 (Bench_bench_pargs_write outp \<lparr>pargs_arg = m\<rparr>) (encode (args_value m))"
    using wr.Bench_bench_pargs_write_writes [of "\<lparr>pargs_arg = m\<rparr>"] by simp
  have f: "yields view (v\<lparr>unflushed := unflushed v @ ?ts\<rparr>) (flush outp) (Inr ())
      (v\<lparr>unflushed := [], flushed := flushed v @ unflushed v @ ?ts\<rparr>)"
    using wr.flush [of "v\<lparr>unflushed := unflushed v @ ?ts\<rparr>"] by simp
  show ?thesis
    by (rule write_message_then [OF w assms]) (rule yields_seq [OF f], rule yields_return)
qed

end

lemma yields_sentry:
  assumes "yields view v enter (Inr ()) v1" and "yields view v1 body (Inr (c, r)) v2"
    and "\<And>w. view w = v2 \<Longrightarrow> view (leave c w) = v3"
  shows "yields view v (sentry enter leave body) r v3"
  unfolding sentry_def
  by (rule yields_seq [OF assms(1)]) (use assms(2,3) in \<open>fastforce simp: yields_def\<close>)

section \<open>Properties\<close>

text \<open>
  C32: \<open>send_bench\<close> of the concurrent client flushes one call message that carries the
  sequence id the library generated, inside the sentry's scope, commits the sentry, and
  returns that id for \<open>recv_bench\<close> to wait for.
\<close>

theorem concurrent_send_bench:
  assumes "connection inp (oprot this) view cost"
    and "yields view v (generateSeqId (sync this)) (Inr q) v1" and "yields view v1 (sendEnter (sync this)) (Inr ()) v2"
    and "2 \<le> out_depth v2"
    and "\<And>w. view w = v2\<lparr>unflushed := [], flushed := flushed v2 @ unflushed v2 @
        Message ''bench'' T_CALL q # encode (args_value m) @ [Message_end]\<rparr> \<Longrightarrow> view (sendLeave (sync this) True w) = v3"
  shows "yields view v (BenchConcurrentClient_send_bench this m) (Inr q) v3"
  unfolding BenchConcurrentClient_send_bench_def Let_def
  by (rule yields_bind [OF assms(2)], rule yields_sentry [OF assms(3)],
      rule connection.send_committed [OF assms(1,4)], rule assms(5))

text \<open>
  C10: a thread of the concurrent client gets its own reply, however many replies of other
  threads come first, from the stream or out of the pending slot: \<open>recv_bench\<close> passes them
  on, and on its own message returns the answer, or throws what the server sent, with the
  sentry committed exactly then; a missing result, and a reply to another method
  (\<open>INVALID_DATA\<close>), are thrown with the sentry not committed.
\<close>

theorem concurrent_recv_bench:
  assumes "connection (iprot this) outp view cost"
    and "yields view v (recvEnter (sync this) q) (Inr ()) v1" and "own_turn this view q v1 h v2"
    and "own_reply (in_depth v2) h us res c" and "incoming v2 = us @ ts"
    and "\<And>w. view w = v2\<lparr>incoming := ts\<rparr> \<Longrightarrow> view (recvLeave (sync this) q c w) = v3"
  shows "yields view v (BenchConcurrentClient_recv_bench this q) res v3"
  unfolding BenchConcurrentClient_recv_bench_def
  by (rule yields_sentry [OF assms(2)], rule connection.recv_turns [OF assms(1,3) refl assms(4,5)], rule assms(6))

text \<open>
  The witness: while the thread waits, the other thread takes the rest of its own message
  off the stream.
\<close>

definition other_thread_sync :: "unit port sync_info" where
  "other_thread_sync = \<lparr>generateSeqId = returnP 1, sendEnter = returnP (), sendLeave = (\<lambda>c w. w),
     recvEnter = (\<lambda>q. returnP ()), recvLeave = (\<lambda>q c w. w), getPending = returnP None,
     updatePending = (\<lambda>n t q. returnP ()),
     waitForWork = (\<lambda>q. modifyP (\<lambda>v. v\<lparr>incoming := tl (dropWhile (\<lambda>tok. tok \<noteq> Message_end) (incoming v))\<rparr>))\<rparr>"

definition sharing_client :: "unit port BenchConcurrentClient" where
  "sharing_client = BenchConcurrentClient_ctor (memory_protocol unit_cost) other_thread_sync"

theorem concurrent_send_bench_witness:
  "yields (\<lambda>w. w) (port_with []) (BenchConcurrentClient_send_bench sharing_client timing_ctor) (Inr 1)
     ((port_with [])\<lparr>flushed := Message ''bench'' T_CALL 1 # encode (args_value timing_ctor) @ [Message_end]\<rparr>)"
  by (rule concurrent_send_bench [where inp = "memory_protocol unit_cost" and cost = unit_cost and ?v1.0 = "port_with []" and ?v2.0 = "port_with []"])
    (simp_all add: sharing_client_def BenchConcurrentClient_ctor_def other_thread_sync_def unit_connection yields_return
      port_with_def)

definition own_tokens :: "token list" where
  "own_tokens = encode (VStruct [(0, VI64 (i64 42))]) @ [Message_end]"

definition shared_stream :: "unit port" where
  "shared_stream = port_with ([Message ''bench'' T_REPLY 2] @ encode (VStruct [(0, VI64 (i64 41))]) @ [Message_end] @
     [Message ''bench'' T_REPLY 1] @ own_tokens)"

lemma shared_turns: "own_turn sharing_client (\<lambda>w. w) 1 shared_stream (''bench'', T_REPLY) (port_with own_tokens)"
proof (rule own_turn.other_read)
  let ?rest = "encode (VStruct [(0, VI64 (i64 41))]) @ [Message_end] @ [Message ''bench'' T_REPLY 1] @ own_tokens"
  let ?own = "port_with ([Message ''bench'' T_REPLY 1] @ own_tokens)"
  show "yields (\<lambda>w. w) shared_stream (getPending (sync sharing_client)) (Inr None) shared_stream"
    and "yields (\<lambda>w. w) (shared_stream\<lparr>incoming := ?rest\<rparr>) (updatePending (sync sharing_client) ''bench'' T_REPLY 2)
      (Inr ()) (shared_stream\<lparr>incoming := ?rest\<rparr>)"
    by (simp_all add: sharing_client_def BenchConcurrentClient_ctor_def other_thread_sync_def yields_return)
  show "incoming shared_stream = Message ''bench'' T_REPLY 2 # ?rest" "(2 :: int32) \<noteq> 1"
    by (simp_all add: shared_stream_def)
  show "yields (\<lambda>w. w) (shared_stream\<lparr>incoming := ?rest\<rparr>) (waitForWork (sync sharing_client) 1) (Inr ()) ?own"
    by (simp add: sharing_client_def BenchConcurrentClient_ctor_def other_thread_sync_def yields_def modifyP_def shared_stream_def)
  have "yields (\<lambda>w. w) ?own (getPending (sync sharing_client)) (Inr None) ?own"
    by (simp add: sharing_client_def BenchConcurrentClient_ctor_def other_thread_sync_def yields_return)
  from own_turn.own_read [where ts = own_tokens, OF this]
  show "own_turn sharing_client (\<lambda>w. w) 1 ?own (''bench'', T_REPLY) (port_with own_tokens)"
    by simp
qed

theorem concurrent_recv_bench_witness:
  "yields (\<lambda>w. w) shared_stream (BenchConcurrentClient_recv_bench sharing_client 1) (Inr (i64 42)) (port_with [])"
proof -
  have conn: "connection (iprot sharing_client) (memory_protocol unit_cost) (\<lambda>w. w) unit_cost"
    using unit_connection by (simp add: sharing_client_def BenchConcurrentClient_ctor_def)
  have enter: "yields (\<lambda>w. w) shared_stream (recvEnter (sync sharing_client) 1) (Inr ()) shared_stream"
    and leave: "recvLeave (sync sharing_client) 1 c w = w" for c w
    by (simp_all add: sharing_client_def BenchConcurrentClient_ctor_def other_thread_sync_def yields_return)
  have outcome: "reply_outcome [(0, VI64 (i64 42))] = Inr (i64 42)"
    by (simp add: reply_outcome_def)
  have "own_reply (in_depth (port_with own_tokens)) (''bench'', T_REPLY) own_tokens (Inr (i64 42)) True"
    using own_reply.reply [of "[(0, VI64 (i64 42))]" 64] by (simp add: own_tokens_def outcome)
  from concurrent_recv_bench [OF conn enter shared_turns this, of "[]" "port_with []"] show ?thesis
    by (simp add: leave)
qed

end
