(* ===== verification/Prog_Rules.thy ===== *)
theory Prog_Rules
  imports Prelude
begin

text \<open>
  Two properties of programs that are proved along their syntax: \<open>ends\<close> (the program comes to
  an end from every world, and does not add to what is left to consume) and \<open>gives\<close> (a
  condition on what it returns and on how it may be cut short, whatever the world). Each has
  an introduction rule per construct, in the collections \<open>ends_intros\<close> and \<open>gives_intros\<close>.
\<close>

named_theorems ends_intros \<open>introduction rules for programs that end\<close>
named_theorems gives_intros \<open>introduction rules for conditions on results\<close>

section \<open>Programs that end\<close>

text \<open>
  \<open>left\<close> measures what a world still has to offer, such as the rest of an input stream.
  \<open>consumes\<close>: the program ends and, when it returns, has taken something.
\<close>

definition ends :: "('w \<Rightarrow> nat) \<Rightarrow> ('w, 'a) prog \<Rightarrow> bool" where
  "ends left m \<longleftrightarrow> (\<forall>w. \<exists>r w'. m w = Some (r, w') \<and> left w' \<le> left w)"

definition consumes :: "('w \<Rightarrow> nat) \<Rightarrow> ('w, 'a) prog \<Rightarrow> bool" where
  "consumes left m \<longleftrightarrow> (\<forall>w. \<exists>r w'. m w = Some (r, w') \<and> left w' \<le> left w \<and>
     (\<forall>x. r = Inr x \<longrightarrow> left w' < left w))"

lemma endsE:
  assumes "ends left m"
  obtains r w' where "m w = Some (r, w')" "left w' \<le> left w"
  using assms unfolding ends_def by blast

lemma ends_outcome: "ends left m \<Longrightarrow> \<exists>r w'. m w = Some (r, w')"
  unfolding ends_def by blast

lemma consumesE:
  assumes "consumes left m"
  obtains (stop) e w' where "m w = Some (Inl e, w')" "left w' \<le> left w"
  | (result) x w' where "m w = Some (Inr x, w')" "left w' < left w"
  using assms unfolding consumes_def by (metis sum.exhaust)

lemma consumes_ends: "consumes left m \<Longrightarrow> ends left m"
  unfolding consumes_def ends_def by blast

lemma ends_result [ends_intros]: "ends left (returnP x)" "ends left (stopP e)" "ends left (pureP r)"
  by (simp_all add: ends_def returnP_def stopP_def pureP_def)

lemma ends_bind [ends_intros]:
  assumes "ends left m" and "\<And>x. ends left (f x)"
  shows "ends left (bindP m f)"
  unfolding ends_def
proof
  fix w
  obtain r w' where m: "m w = Some (r, w')" "left w' \<le> left w"
    using assms(1) by (rule endsE)
  show "\<exists>r w'. bindP m f w = Some (r, w') \<and> left w' \<le> left w"
  proof (cases r)
    case (Inl e)
    with m show ?thesis by (simp add: bindP_def)
  next
    case (Inr x)
    obtain r' w'' where "f x w' = Some (r', w'')" "left w'' \<le> left w'"
      using assms(2) by (rule endsE)
    with m Inr show ?thesis by (simp add: bindP_def)
  qed
qed

lemma ends_seq [ends_intros]: "ends left m \<Longrightarrow> ends left n \<Longrightarrow> ends left (seqP m n)"
  by (simp add: seqP_def ends_bind)

lemma ends_if [ends_intros]: "ends left m \<Longrightarrow> ends left n \<Longrightarrow> ends left (if b then m else n)"
  by simp

lemma ends_case_option [ends_intros]:
  "ends left m \<Longrightarrow> (\<And>x. ends left (f x)) \<Longrightarrow> ends left (case p of None \<Rightarrow> m | Some x \<Rightarrow> f x)"
  by (cases p) simp_all

lemma ends_case_prod [ends_intros]: "(\<And>x y. ends left (f x y)) \<Longrightarrow> ends left (case p of (x, y) \<Rightarrow> f x y)"
  by (cases p) simp

lemma ends_finally [ends_intros]:
  assumes "ends left m" and "\<And>w. left (d w) \<le> left w"
  shows "ends left (finallyP m d)"
  unfolding ends_def
proof
  fix w
  obtain r w' where m: "m w = Some (r, w')" "left w' \<le> left w"
    using assms(1) by (rule endsE)
  with assms(2) [of w'] show "\<exists>r w'. finallyP m d w = Some (r, w') \<and> left w' \<le> left w"
    by (auto simp: finallyP_def split: sum.split stop.split)
qed

lemma ends_catch [ends_intros]:
  assumes "ends left m" and "\<And>e. ends left (h e)"
  shows "ends left (catchP m h)"
  unfolding ends_def
proof
  fix w
  obtain r w' where m: "m w = Some (r, w')" "left w' \<le> left w"
    using assms(1) by (rule endsE)
  show "\<exists>r w'. catchP m h w = Some (r, w') \<and> left w' \<le> left w"
  proof (cases "\<exists>e. r = Inl (Throw e)")
    case True
    then obtain e where "r = Inl (Throw e)" ..
    moreover obtain r' w'' where "h e w' = Some (r', w'')" "left w'' \<le> left w'"
      using assms(2) by (rule endsE)
    ultimately show ?thesis
      using m by (simp add: catchP_def)
  next
    case False
    with m show ?thesis
      by (auto simp: catchP_def split: sum.split stop.split)
  qed
qed

lemma consumes_bind:
  assumes "consumes left m" and "\<And>x. ends left (f x)"
  shows "consumes left (bindP m f)"
  unfolding consumes_def
proof
  fix w
  show "\<exists>r w'. bindP m f w = Some (r, w') \<and> left w' \<le> left w \<and> (\<forall>x. r = Inr x \<longrightarrow> left w' < left w)"
    using assms(1)
  proof (cases rule: consumesE [where w = w])
    case (stop e w')
    then show ?thesis by (simp add: bindP_def)
  next
    case (result x w')
    obtain r' w'' where "f x w' = Some (r', w'')" "left w'' \<le> left w'"
      using assms(2) by (rule endsE)
    with result show ?thesis by (simp add: bindP_def)
  qed
qed

text \<open>A loop ends when every turn takes something.\<close>

lemma ends_loop:
  assumes "\<And>s. consumes left (body s)"
  shows "ends left (loopP body s)"
  unfolding ends_def
proof
  fix w
  show "\<exists>r w'. loopP body s w = Some (r, w') \<and> left w' \<le> left w"
  proof (induction "left w" arbitrary: s w rule: less_induct)
    case less
    from assms [of s] show ?case
    proof (cases rule: consumesE [where w = w])
      case (stop e w')
      then show ?thesis by (simp add: loopP_stop)
    next
      case (result c w')
      show ?thesis
      proof (cases c)
        case (Continue s')
        with less [OF result(2), of s'] result show ?thesis
          by (fastforce simp: loopP_continue)
      next
        case (Break b)
        with result show ?thesis by (simp add: loopP_break)
      qed
    qed
  qed
qed

section \<open>Conditions on results\<close>

definition gives :: "(stop \<Rightarrow> bool) \<Rightarrow> ('a \<Rightarrow> bool) \<Rightarrow> ('w, 'a) prog \<Rightarrow> bool" where
  "gives E P m \<longleftrightarrow> (\<forall>w e w'. m w = Some (Inl e, w') \<longrightarrow> E e) \<and> (\<forall>w x w'. m w = Some (Inr x, w') \<longrightarrow> P x)"

lemma givesI:
  "(\<And>w e w'. m w = Some (Inl e, w') \<Longrightarrow> E e) \<Longrightarrow> (\<And>w x w'. m w = Some (Inr x, w') \<Longrightarrow> P x) \<Longrightarrow> gives E P m"
  unfolding gives_def by blast

lemma gives_Inl: "gives E P m \<Longrightarrow> m w = Some (Inl e, w') \<Longrightarrow> E e"
  unfolding gives_def by blast

lemma gives_Inr: "gives E P m \<Longrightarrow> m w = Some (Inr x, w') \<Longrightarrow> P x"
  unfolding gives_def by blast

lemma gives_mono: "gives E P m \<Longrightarrow> (\<And>x. P x \<Longrightarrow> Q x) \<Longrightarrow> gives E Q m"
  unfolding gives_def by blast

lemma gives_result [gives_intros]:
  "P x \<Longrightarrow> gives E P (returnP x)"
  "E e \<Longrightarrow> gives E P (stopP e)"
  by (simp_all add: gives_def returnP_def stopP_def)

lemma bindP_Inl_iff:
  "bindP m f w = Some (Inl e, w'') \<longleftrightarrow>
     m w = Some (Inl e, w'') \<or> (\<exists>x w'. m w = Some (Inr x, w') \<and> f x w' = Some (Inl e, w''))"
  by (auto simp: bindP_def split: option.split prod.split sum.split)

lemma gives_bind:
  assumes "gives E Q m" and "\<And>x. Q x \<Longrightarrow> gives E P (f x)"
  shows "gives E P (bindP m f)"
  using assms unfolding gives_def bindP_Inl_iff bindP_Inr_iff by blast

lemma gives_seq: "gives E Q m \<Longrightarrow> gives E P n \<Longrightarrow> gives E P (seqP m n)"
  by (auto simp: seqP_def intro: gives_bind)

lemma gives_finally:
  assumes "gives E P m"
  shows "gives E P (finallyP m d)"
proof (rule givesI)
  fix w e w'
  assume "finallyP m d w = Some (Inl e, w')"
  then obtain w'' where "m w = Some (Inl e, w'')"
    by (auto simp: finallyP_def split: option.splits sum.splits stop.splits)
  with assms show "E e"
    by (rule gives_Inl)
next
  fix w x w'
  assume "finallyP m d w = Some (Inr x, w')"
  then obtain w'' where "m w = Some (Inr x, w'')"
    by (auto simp: finallyP_def split: option.splits sum.splits stop.splits)
  with assms show "P x"
    by (rule gives_Inr)
qed

lemma gives_catch:
  assumes "gives E P m" and "\<And>e. gives E P (h e)"
  shows "gives E P (catchP m h)"
proof (rule givesI)
  fix w e w'
  assume "catchP m h w = Some (Inl e, w')"
  then have "m w = Some (Inl e, w') \<or> (\<exists>x w''. h x w'' = Some (Inl e, w'))"
    by (auto simp: catchP_def split: option.splits sum.splits stop.splits)
  then show "E e"
    using gives_Inl [OF assms(1)] gives_Inl [OF assms(2)] by blast
next
  fix w x w'
  assume "catchP m h w = Some (Inr x, w')"
  then have "m w = Some (Inr x, w') \<or> (\<exists>e w''. h e w'' = Some (Inr x, w'))"
    by (auto simp: catchP_def split: option.splits sum.splits stop.splits)
  then show "P x"
    using gives_Inr [OF assms(1)] gives_Inr [OF assms(2)] by blast
qed

lemma gives_loop:
  assumes turn: "\<And>s. I s \<Longrightarrow> gives E (\<lambda>c. case c of Continue s' \<Rightarrow> I s' | Break b \<Rightarrow> P b) (body s)" and "I s"
  shows "gives E P (loopP body s)"
proof -
  have "b = body \<longrightarrow> I s \<longrightarrow> (case r of (Inl e, w') \<Rightarrow> E e | (Inr x, w') \<Rightarrow> P x)"
    if "loopP b s w = Some r" for b s w r
  proof (rule loopP.raw_induct [OF _ that], intro impI)
    fix loop b s w r
    assume IH: "\<And>b s w r. loop b s w = Some r \<Longrightarrow>
        b = body \<longrightarrow> I s \<longrightarrow> (case r of (Inl e, w') \<Rightarrow> E e | (Inr x, w') \<Rightarrow> P x)"
      and r: "(case b s w of None \<Rightarrow> None | Some (Inl e, w') \<Rightarrow> Some (Inl e, w')
        | Some (Inr (Continue s'), w') \<Rightarrow> loop b s' w' | Some (Inr (Break x), w') \<Rightarrow> Some (Inr x, w')) = Some r"
      and b: "b = body" and I: "I s"
    note turn = gives_Inl [OF turn [OF I]] gives_Inr [OF turn [OF I]]
    obtain c w' where c: "b s w = Some (c, w')"
      using r by (auto split: option.splits)
    show "case r of (Inl e, w') \<Rightarrow> E e | (Inr x, w') \<Rightarrow> P x"
    proof (cases c)
      case (Inl e)
      with b c r turn(1) [of w e w'] show ?thesis by auto
    next
      case (Inr d)
      with b c turn(2) [of w d w'] have d: "case d of Continue s' \<Rightarrow> I s' | Break x \<Rightarrow> P x"
        by simp
      show ?thesis
      proof (cases d)
        case (Continue s')
        with c d r Inr have "loop b s' w' = Some r" "I s'"
          by simp_all
        with IH b show ?thesis by blast
      next
        case (Break x)
        with c d r Inr show ?thesis by auto
      qed
    qed
  qed
  with assms(2) show ?thesis
    unfolding gives_def by fastforce
qed

end
