(* ===== verification/Thrift_Robust.thy ===== *)
theory Thrift_Robust
  imports Thrift_Concurrent Prog_Rules
begin

text \<open>
  The generated code of \<open>thrift-bench/gen-cpp\<close> on input it does not expect. Nothing is
  assumed of what is on the wire: any bytes, from any peer. The readers, the client and the
  server's call come to an end on every finite stream, and no client reads a variable that
  no reply has set.
\<close>

section \<open>Every stream is read to an end\<close>

text \<open>
  What ending needs of the library: every call ends (on a closed connection a read past the
  end throws), none adds to what is left on the stream, and a field header is not empty.
\<close>

locale input_ends =
  fixes prot :: "'w tprotocol" and left :: "'w \<Rightarrow> nat"
  assumes calls_end [ends_intros]: "ends left (readMessageBegin prot)" "ends left (readMessageEnd prot)"
      "ends left (readStructBegin prot)" "ends left (readStructEnd prot)" "ends left (readFieldEnd prot)"
      "ends left (readI64 prot)" "ends left (readString prot)" "\<And>t. ends left (skip prot t)"
      "ends left (readEnd prot)" "ends left (enterInput prot)" "ends left (appexn_read prot)"
    and header_consumes: "consumes left (readFieldBegin prot)"
    and leave_input: "left (leaveInput prot w) \<le> left w"
begin

lemma skip_field_ends [ends_intros]: "ends left (skip_field prot t this)"
  unfolding skip_field_def by (intro ends_intros)

lemma read_field_consumes:
  assumes "\<And>ftype fid this. ends left (cases ftype fid this)"
  shows "consumes left (read_field prot cases s)"
proof (cases s)
  case (Pair this xfer)
  show ?thesis
    unfolding Pair read_field_def split Let_def
    by (rule consumes_bind [OF header_consumes]) (intro ends_intros assms)
qed

lemma read_struct_ends:
  assumes "\<And>ftype fid this. ends left (cases ftype fid this)"
  shows "ends left (read_struct prot cases this)"
  unfolding read_struct_def TInputRecursionTracker_def Let_def
  by (intro ends_intros leave_input ends_loop read_field_consumes assms)

lemma timing_read_ends [ends_intros]: "ends left (timing_read prot this)"
  unfolding timing_read_def timing_cases_def by (intro read_struct_ends ends_intros)

lemma Bench_bench_args_read_ends [ends_intros]: "ends left (Bench_bench_args_read prot this)"
  unfolding Bench_bench_args_read_def args_cases_def by (intro read_struct_ends ends_intros)

lemma Bench_bench_result_read_ends [ends_intros]: "ends left (Bench_bench_result_read prot this)"
  unfolding Bench_bench_result_read_def result_cases_def by (intro read_struct_ends ends_intros)

lemma Bench_bench_presult_read_ends [ends_intros]: "ends left (Bench_bench_presult_read prot this)"
  unfolding Bench_bench_presult_read_def presult_cases_def by (intro read_struct_ends ends_intros)

lemma drop_message_ends [ends_intros]: "ends left (drop_message prot)"
  unfolding drop_message_def by (intro ends_intros)

lemma recv_result_ends [ends_intros]: "ends left (recv_result prot)"
  unfolding recv_result_def by (intro ends_intros)

lemma recv_exception_ends [ends_intros]: "ends left (recv_exception prot)"
  unfolding recv_exception_def by (intro ends_intros)

lemma recv_bench_ends: "iprot this = prot \<Longrightarrow> ends left (BenchClient_recv_bench this)"
  unfolding BenchClient_recv_bench_def Let_def by (intro ends_intros) (simp_all add: ends_intros)

end

text \<open>The writing side: every call ends and leaves the input alone.\<close>

locale output_ends =
  fixes prot :: "'w tprotocol" and left :: "'w \<Rightarrow> nat"
  assumes writes_end [ends_intros]: "\<And>n t q. ends left (writeMessageBegin prot n t q)" "ends left (writeMessageEnd prot)"
      "\<And>n. ends left (writeStructBegin prot n)" "ends left (writeStructEnd prot)"
      "\<And>n t i. ends left (writeFieldBegin prot n t i)" "ends left (writeFieldEnd prot)" "ends left (writeFieldStop prot)"
      "\<And>x. ends left (writeI64 prot x)" "\<And>s. ends left (writeString prot s)" "ends left (writeEnd prot)"
      "ends left (flush prot)" "ends left (enterOutput prot)" "\<And>k m. ends left (appexn_write prot k m)"
    and leave_output: "left (leaveOutput prot w) \<le> left w"
begin

lemma xfer_calls_ends: "\<forall>m \<in> set ms. ends left m \<Longrightarrow> ends left (xfer_calls ms n)"
  by (induction ms arbitrary: n) (auto intro: ends_intros)

lemma Bench_bench_result_write_ends [ends_intros]: "ends left (Bench_bench_result_write prot r)"
  unfolding Bench_bench_result_write_def by (rule xfer_calls_ends) (auto intro: ends_intros)

lemma write_exception_ends [ends_intros]: "ends left (write_exception prot fname q k m)"
  unfolding write_exception_def by (intro ends_intros)

end

text \<open>A processor whose handler and event handler end, whatever they are called with.\<close>

definition processor_ends :: "('w \<Rightarrow> nat) \<Rightarrow> 'w BenchProcessor \<Rightarrow> bool" where
  "processor_ends left p \<longleftrightarrow> (\<forall>m. ends left (iface p m)) \<and> (case eventHandler p of
     None \<Rightarrow> True
   | Some h \<Rightarrow> (\<forall>f c. ends left (getContext h f c)) \<and> (\<forall>c f w. left (freeContext h c f w) \<le> left w) \<and>
       (\<forall>c f. ends left (preRead h c f)) \<and> (\<forall>c f n. ends left (postRead h c f n)) \<and>
       (\<forall>c f. ends left (preWrite h c f)) \<and> (\<forall>c f n. ends left (postWrite h c f n)) \<and>
       (\<forall>c f. ends left (handlerError h c f)))"

lemma processor_endsD:
  assumes "processor_ends left p"
  shows "ends left (iface p m)"
    and "ends left (case eventHandler p of None \<Rightarrow> returnP 0 | Some h \<Rightarrow> getContext h ''Bench.bench'' c)"
    and "left (TProcessorContextFreer p ctx w) \<le> left w"
    and "ends left (on_event p (\<lambda>h. preRead h ctx ''Bench.bench''))"
    and "ends left (on_event p (\<lambda>h. postRead h ctx ''Bench.bench'' n))"
    and "ends left (on_event p (\<lambda>h. preWrite h ctx ''Bench.bench''))"
    and "ends left (on_event p (\<lambda>h. postWrite h ctx ''Bench.bench'' n))"
    and "ends left (on_event p (\<lambda>h. handlerError h ctx ''Bench.bench''))"
  using assms by (auto simp: processor_ends_def TProcessorContextFreer_def on_event_def ends_result split: option.splits)

locale server_ends = rd: input_ends inp left + wr: output_ends outp left
  for inp outp :: "'w tprotocol" and left :: "'w \<Rightarrow> nat"
begin

lemma process_bench_ends:
  assumes "processor_ends left p"
  shows "ends left (process_bench what p q inp outp c)"
  unfolding process_bench_def
  by (intro ends_intros processor_endsD [OF assms])

lemma dispatchCall_ends:
  assumes "processor_ends left p"
  shows "ends left (dispatchCall what p inp outp fname q c)"
proof (cases "map_of (processMap p) fname")
  case None
  then show ?thesis
    unfolding dispatchCall_def by (simp add: ends_intros)
next
  case (Some f)
  then show ?thesis
    unfolding dispatchCall_def
    by (cases f) (simp add: ends_intros process_bench_ends [OF assms])
qed

end

text \<open>A stream in memory is finite: its length is what is left.\<close>

definition unread :: "'a port \<Rightarrow> nat" where
  "unread v = length (incoming v)"

lemma take_token_ends: "ends unread (take_token f)" "consumes unread (take_token f)"
  by (auto simp: ends_def consumes_def take_token_def unread_def split: list.split option.split)

lemma skip_shorter:
  "skip_value n t ts = Some us \<Longrightarrow> length us \<le> length ts"
  "skip_fields n ts = Some us \<Longrightarrow> length us \<le> length ts"
  by (induction n t ts and n ts arbitrary: us and us rule: skip_value_skip_fields.induct)
    (fastforce split: prod.splits ttype.splits token.splits list.splits option.splits if_splits)+

lemma memory_call_ends:
  "ends unread (put_unit tok)" "ends unread (put_token cost tok)"
  "(\<And>d v. incoming (put d v) = incoming v) \<Longrightarrow> ends unread (enter_depth get put)"
  "(\<And>v. incoming (f v) = incoming v) \<Longrightarrow> ends unread (modifyP f)"
  by (simp_all add: ends_def put_unit_def put_token_def enter_depth_def prog_defs unread_def)

lemma skip_memory_ends: "ends unread (skip (memory_protocol cost) t)"
  using skip_shorter(1) by (fastforce simp: ends_def memory_protocol_def unread_def split: option.split)

interpretation memory_ends: server_ends "memory_protocol cost" "memory_protocol cost" unread
  for cost :: "token \<Rightarrow> u32"
  by (unfold_locales; (rule skip_memory_ends)?)
    (auto simp: memory_protocol_def take_token_ends memory_call_ends ends_result unread_def)

section \<open>Only exceptions\<close>

text \<open>
  \<open>sound\<close>: a program that, whatever the world, is cut short by exceptions only: it neither
  exits nor has undefined behaviour, such as the read of an uninitialised variable. A result struct is
  well-formed when its flag is only set together with the variable it points to.
\<close>

definition thrown :: "stop \<Rightarrow> bool" where
  "thrown e \<longleftrightarrow> (\<exists>x. e = Throw x)"

abbreviation sound :: "('w, 'a) prog \<Rightarrow> bool" where
  "sound m \<equiv> gives thrown (\<lambda>_. True) m"

definition presult_wf :: "Bench_bench_presult \<Rightarrow> bool" where
  "presult_wf r \<longleftrightarrow> (presult_isset_success r \<longrightarrow> presult_success r \<noteq> None)"

text \<open>What it needs of the library: its own calls return or throw.\<close>

definition sound_input :: "'w tprotocol \<Rightarrow> bool" where
  "sound_input prot \<longleftrightarrow> sound (readMessageBegin prot) \<and> sound (readMessageEnd prot) \<and> sound (readStructBegin prot) \<and>
     sound (readStructEnd prot) \<and> sound (readFieldBegin prot) \<and> sound (readFieldEnd prot) \<and> sound (readI64 prot) \<and>
     sound (readString prot) \<and> (\<forall>t. sound (skip prot t)) \<and> sound (readEnd prot) \<and> sound (enterInput prot) \<and> sound (appexn_read prot)"

text \<open>Sequencing where nothing needs to be known of the first result.\<close>

lemma sound_bind [gives_intros]: "sound m \<Longrightarrow> (\<And>x. gives thrown P (f x)) \<Longrightarrow> gives thrown P (bindP m f)"
  by (auto intro: gives_bind)

lemma sound_seq [gives_intros]: "sound m \<Longrightarrow> gives thrown P n \<Longrightarrow> gives thrown P (seqP m n)"
  by (rule gives_seq)

lemma gives_case_prod [gives_intros]: "(\<And>x y. gives E P (f x y)) \<Longrightarrow> gives E P (case p of (x, y) \<Rightarrow> f x y)"
  by (cases p) simp

lemma gives_if [gives_intros]: "gives E P m \<Longrightarrow> gives E P n \<Longrightarrow> gives E P (if b then m else n)"
  by simp

lemma skip_field_wf:
  "sound_input prot \<Longrightarrow> Q this \<Longrightarrow> gives thrown (\<lambda>(this, n). Q this) (skip_field prot t this)"
  unfolding skip_field_def
  by (rule gives_bind [where Q = "\<lambda>_. True"]) (auto simp: sound_input_def intro: gives_result)

lemma presult_cases_wf:
  assumes "sound_input prot" and "presult_wf this"
  shows "gives thrown (\<lambda>(this, n). presult_wf this) (presult_cases prot ftype fid this)"
proof -
  have "gives thrown (\<lambda>(this, n). presult_wf this) (bindP (readI64 prot) (\<lambda>(x, n).
      returnP (this\<lparr>presult_success := Some x, presult_isset_success := True\<rparr>, n)))"
    using assms(1) by (intro gives_bind [where Q = "\<lambda>_. True"])
      (auto simp: sound_input_def presult_wf_def intro: gives_result)
  then show ?thesis
    using skip_field_wf [OF assms(1), where Q = presult_wf and this = this] assms(2) by (simp add: presult_cases_def)
qed

text \<open>A reader keeps whatever its switch keeps.\<close>

lemma read_field_wf:
  assumes "sound_input prot" and "\<And>ftype fid this. Q this \<Longrightarrow> gives thrown (\<lambda>(this, n). Q this) (cases ftype fid this)"
    and "Q this"
  shows "gives thrown (\<lambda>c. case c of Continue (this, n) \<Rightarrow> Q this | Break (this, n) \<Rightarrow> Q this)
    (read_field prot cases (this, xfer))"
proof -
  have prot: "sound (readFieldBegin prot)" "sound (readFieldEnd prot)"
    using assms(1) by (simp_all add: sound_input_def)
  have "gives thrown (\<lambda>c. case c of Continue (this, n) \<Rightarrow> Q this | Break (this, n) \<Rightarrow> Q this)
      (bindP (cases ftype fid this) (\<lambda>(this, n). let xfer = k + n in
       bindP (readFieldEnd prot) (\<lambda>n. returnP (Continue (this, xfer + n)))))" for ftype fid k
    unfolding Let_def
    by (rule gives_bind [OF assms(2) [OF assms(3)]]) (auto intro!: gives_bind [OF prot(2)] gives_result)
  then show ?thesis
    unfolding read_field_def split Let_def
    by (intro gives_bind [OF prot(1)]) (auto intro: gives_result simp: Let_def assms(3) split: prod.split)
qed

lemma read_struct_wf:
  assumes "sound_input prot" and "\<And>ftype fid this. Q this \<Longrightarrow> gives thrown (\<lambda>(this, n). Q this) (cases ftype fid this)"
    and "Q this"
  shows "gives thrown (\<lambda>(this, n). Q this) (read_struct prot cases this)"
proof -
  have prot: "sound (enterInput prot)" "sound (readStructBegin prot)" "sound (readStructEnd prot)"
    using assms(1) by (simp_all add: sound_input_def)
  have loop: "gives thrown (\<lambda>(this, n). Q this) (loopP (read_field prot cases) (this, k))" for k
  proof (rule gives_loop [where I = "\<lambda>(this, n). Q this"])
    show "gives thrown (\<lambda>c. case c of Continue s \<Rightarrow> (case s of (this, n) \<Rightarrow> Q this) | Break s \<Rightarrow> (case s of (this, n) \<Rightarrow> Q this))
        (read_field prot cases s)" if "case s of (this, n) \<Rightarrow> Q this" for s
      using read_field_wf [OF assms(1,2)] that by (cases s) simp
  qed (simp add: assms(3))
  show ?thesis
    unfolding read_struct_def TInputRecursionTracker_def Let_def
    by (intro gives_seq [OF prot(1)] gives_finally gives_bind [OF prot(2)] gives_bind [OF loop])
      (auto intro!: gives_bind [OF prot(3)] gives_result)
qed

text \<open>The client's result is well-formed, and so it never takes the branch that reads it unset.\<close>

lemma recv_result_wf:
  assumes "sound_input prot"
  shows "gives thrown presult_wf (recv_result prot)"
proof -
  have prot: "sound (readMessageEnd prot)" "sound (readEnd prot)"
    using assms by (simp_all add: sound_input_def)
  have "gives thrown (\<lambda>(r, n). presult_wf r) (Bench_bench_presult_read prot Bench_bench_presult_ctor)"
    unfolding Bench_bench_presult_read_def
    by (rule read_struct_wf [OF assms presult_cases_wf [OF assms]])
      (simp_all add: presult_wf_def Bench_bench_presult_ctor_def)
  then show ?thesis
    unfolding recv_result_def
    by (rule gives_bind) (auto intro!: gives_intros prot)
qed

lemma result_or_throw_wf:
  "presult_wf r \<Longrightarrow> result_or_throw r = Inl e \<Longrightarrow> thrown e"
  by (auto simp: presult_wf_def result_or_throw_def thrown_def split: if_splits option.splits)

lemma drop_message_sound: "sound_input prot \<Longrightarrow> sound (drop_message prot)"
  unfolding drop_message_def by (intro gives_intros) (simp_all add: sound_input_def)

lemma recv_exception_sound: "sound_input prot \<Longrightarrow> sound (recv_exception prot)"
  unfolding recv_exception_def by (intro gives_intros) (simp_all add: sound_input_def)

lemma thrown_Throw [simp, intro]: "thrown (Throw x)"
  by (simp add: thrown_def)

lemma BenchClient_recv_bench_sound:
  assumes "sound_input (iprot this)"
  shows "sound (BenchClient_recv_bench this)"
proof -
  have result: "sound (bindP (recv_result (iprot this)) (\<lambda>result. pureP (result_or_throw result)))"
    by (rule gives_bind [OF recv_result_wf [OF assms]])
      (auto simp: gives_def pureP_def intro: result_or_throw_wf)
  then show ?thesis
    unfolding BenchClient_recv_bench_def Let_def
    by (intro gives_intros recv_exception_sound drop_message_sound assms thrown_Throw result)
      (use assms in \<open>simp_all add: sound_input_def\<close>)
qed

text \<open>The same for the concurrent client, whose outcome passes through the sentry.\<close>

definition sound_sync :: "'w sync_info \<Rightarrow> bool" where
  "sound_sync sy \<longleftrightarrow> (\<forall>q. sound (recvEnter sy q)) \<and> sound (getPending sy) \<and>
     (\<forall>n t q. sound (updatePending sy n t q)) \<and> (\<forall>q. sound (waitForWork sy q))"

definition sound_outcome :: "bool \<times> (stop + int64) \<Rightarrow> bool" where
  "sound_outcome o' = (case snd o' of Inl e \<Rightarrow> thrown e | Inr x \<Rightarrow> True)"

lemma recv_own_sound:
  assumes "sound_input prot"
  shows "gives thrown sound_outcome (recv_own prot fname mtype)"
proof -
  have result: "gives thrown sound_outcome (bindP (recv_result prot) (\<lambda>result.
      returnP (presult_isset_success result, result_or_throw result)))"
    by (rule gives_bind [OF recv_result_wf [OF assms]])
      (auto simp: sound_outcome_def intro!: gives_result intro: result_or_throw_wf split: sum.split)
  then show ?thesis
    unfolding recv_own_def
    by (intro gives_intros recv_exception_sound drop_message_sound assms result)
      (simp_all add: sound_outcome_def thrown_Throw)
qed

lemma recv_turn_sound:
  assumes "sound_input (iprot this)" and "sound_sync (sync this)"
  shows "gives thrown (\<lambda>c. case c of Continue s \<Rightarrow> True | Break o' \<Rightarrow> sound_outcome o') (recv_turn this q s)"
proof -
  have own: "gives thrown (\<lambda>c. case c of Continue s \<Rightarrow> True | Break o' \<Rightarrow> sound_outcome o')
      (bindP (recv_own (iprot this) fname mtype) (\<lambda>outcome. returnP (Break outcome)))" for fname mtype
    by (rule gives_bind [OF recv_own_sound [OF assms(1)]]) (simp add: gives_result)
  have header: "sound (case pending of None \<Rightarrow> readMessageBegin (iprot this) | Some header \<Rightarrow> returnP header)" for pending
    using assms(1) by (auto simp: sound_input_def intro: gives_result split: option.split)
  show ?thesis
    unfolding recv_turn_def Let_def
    by (intro gives_intros own header) (use assms(2) in \<open>simp_all add: sound_sync_def\<close>)
qed

lemma sentry_sound:
  assumes "sound enter" and "gives thrown sound_outcome body"
  shows "sound (sentry enter leave body)"
  unfolding sentry_def
proof (rule sound_seq [OF assms(1)])
  have "thrown e" if "body w = Some (Inr (c, Inl e), w')" for w c e w'
    using gives_Inr [OF assms(2) that] by (simp add: sound_outcome_def)
  moreover have "thrown e" if "body w = Some (Inl e, w')" for w e w'
    using gives_Inl [OF assms(2) that] .
  ultimately show "sound (\<lambda>w. case body w of None \<Rightarrow> None
   | Some (Inr (committed, r), w') \<Rightarrow> Some (r, leave committed w')
   | Some (Inl (Throw e), w') \<Rightarrow> Some (Inl (Throw e), leave False w')
   | Some (Inl e, w') \<Rightarrow> Some (Inl e, w'))"
    by (auto intro!: givesI split: option.splits sum.splits stop.splits prod.splits)
qed

lemma BenchConcurrentClient_recv_bench_sound:
  assumes "sound_input (iprot this)" and "sound_sync (sync this)"
  shows "sound (BenchConcurrentClient_recv_bench this q)"
proof -
  have "gives thrown sound_outcome (loopP (recv_turn this q) ())"
    by (rule gives_loop [where I = "\<lambda>_. True"]) (simp_all add: recv_turn_sound [OF assms])
  then show ?thesis
    unfolding BenchConcurrentClient_recv_bench_def
    using assms(2) by (intro sentry_sound) (simp_all add: sound_sync_def)
qed

section \<open>The server's call\<close>

definition sound_output :: "'w tprotocol \<Rightarrow> bool" where
  "sound_output prot \<longleftrightarrow> (\<forall>n t q. sound (writeMessageBegin prot n t q)) \<and> sound (writeMessageEnd prot) \<and>
     (\<forall>n. sound (writeStructBegin prot n)) \<and> sound (writeStructEnd prot) \<and>
     (\<forall>n t i. sound (writeFieldBegin prot n t i)) \<and> sound (writeFieldEnd prot) \<and> sound (writeFieldStop prot) \<and>
     (\<forall>x. sound (writeI64 prot x)) \<and> sound (writeEnd prot) \<and> sound (flush prot) \<and>
     (\<forall>k m. sound (appexn_write prot k m))"

definition sound_processor :: "'w BenchProcessor \<Rightarrow> bool" where
  "sound_processor p \<longleftrightarrow> (\<forall>m. sound (iface p m)) \<and> (case eventHandler p of
     None \<Rightarrow> True
   | Some h \<Rightarrow> (\<forall>f c. sound (getContext h f c)) \<and> (\<forall>c f. sound (preRead h c f)) \<and>
       (\<forall>c f n. sound (postRead h c f n)) \<and> (\<forall>c f. sound (preWrite h c f)) \<and>
       (\<forall>c f n. sound (postWrite h c f n)) \<and> (\<forall>c f. sound (handlerError h c f)))"

lemma sound_processorD:
  assumes "sound_processor p"
  shows "sound (iface p m)"
    and "sound (case eventHandler p of None \<Rightarrow> returnP 0 | Some h \<Rightarrow> getContext h ''Bench.bench'' c)"
    and "sound (on_event p (\<lambda>h. preRead h ctx ''Bench.bench''))"
    and "sound (on_event p (\<lambda>h. postRead h ctx ''Bench.bench'' n))"
    and "sound (on_event p (\<lambda>h. preWrite h ctx ''Bench.bench''))"
    and "sound (on_event p (\<lambda>h. postWrite h ctx ''Bench.bench'' n))"
    and "sound (on_event p (\<lambda>h. handlerError h ctx ''Bench.bench''))"
  using assms by (auto simp: sound_processor_def on_event_def gives_result split: option.splits)

lemma skip_field_sound: "sound_input prot \<Longrightarrow> sound (skip_field prot t this)"
  using skip_field_wf [of prot "\<lambda>_. True" this t] by (simp add: case_prod_beta')

lemma read_struct_sound:
  "sound_input prot \<Longrightarrow> (\<And>t i r. sound (cases t i r)) \<Longrightarrow> sound (read_struct prot cases this)"
  using read_struct_wf [of prot "\<lambda>_. True" cases this] by (simp add: case_prod_beta')

lemma args_read_sound:
  assumes "sound_input prot"
  shows "sound (Bench_bench_args_read prot this)"
proof -
  note field = skip_field_sound [OF assms]
  have reads: "sound (readI64 prot)" "sound (readString prot)"
    using assms by (simp_all add: sound_input_def)
  have timing: "sound (timing_read prot r)" for r
    unfolding timing_read_def timing_cases_def
    by (intro read_struct_sound [OF assms] gives_intros field reads) simp_all
  show ?thesis
    unfolding Bench_bench_args_read_def args_cases_def
    by (intro read_struct_sound [OF assms] gives_intros field timing) simp_all
qed

lemma xfer_calls_sound: "\<forall>m \<in> set ms. sound m \<Longrightarrow> sound (xfer_calls ms n)"
  by (induction ms arbitrary: n) (auto intro: gives_intros)

lemma write_exception_sound: "sound_output prot \<Longrightarrow> sound (write_exception prot fname q k m)"
  unfolding write_exception_def by (intro gives_intros) (simp_all add: sound_output_def)

lemma result_write_sound: "sound_output prot \<Longrightarrow> sound (Bench_bench_result_write prot r)"
  unfolding Bench_bench_result_write_def by (rule xfer_calls_sound) (auto simp: sound_output_def)

lemma process_bench_sound:
  assumes "sound_input inp" and "sound_output outp" and "sound_processor p"
  shows "sound (process_bench what p q inp outp c)"
proof -
  note rd = args_read_sound [OF assms(1)] and wr = write_exception_sound [OF assms(2)] result_write_sound [OF assms(2)]
    and app = sound_processorD [OF assms(3)]
  have calls: "sound (readMessageEnd inp)" "sound (readEnd inp)" "sound (writeMessageBegin outp n t q)"
    "sound (writeMessageEnd outp)" "sound (writeEnd outp)" "sound (flush outp)" for n t q
    using assms(1,2) by (simp_all add: sound_input_def sound_output_def)
  have reply: "sound (case outcome of None \<Rightarrow> returnP () | Some r \<Rightarrow> f r)"
    if "\<And>r. sound (f r)" for outcome and f :: "Bench_bench_result \<Rightarrow> ('a, unit) prog"
    using that by (cases outcome) (simp_all add: gives_result)
  show ?thesis
    unfolding process_bench_def
    by (intro gives_intros gives_finally gives_catch reply rd wr app calls) simp_all
qed

lemma dispatchCall_sound:
  assumes "sound_input inp" and "sound_output outp" and "sound_processor p"
  shows "gives thrown (\<lambda>b. b) (dispatchCall what p inp outp fname q c)"
proof (cases "map_of (processMap p) fname")
  case None
  have "gives thrown (\<lambda>b. b) (seqP (drop_message inp) (
      seqP (write_exception outp fname q UNKNOWN_METHOD (''Invalid method name: '' @ [CHR 0x27] @ fname @ [CHR 0x27]))
      (returnP True)))"
    by (intro gives_intros drop_message_sound [OF assms(1)] write_exception_sound [OF assms(2)]) simp
  with None show ?thesis
    by (simp add: dispatchCall_def)
next
  case (Some f)
  have "gives thrown (\<lambda>b. b) (seqP (process_bench what p q inp outp c) (returnP True))"
    by (intro gives_intros process_bench_sound [OF assms]) simp
  with Some show ?thesis
    by (cases f) (simp add: dispatchCall_def)
qed

section \<open>Properties\<close>

text \<open>
  C19: the four generated readers and the client's \<open>recv_bench\<close> end on every finite stream,
  whatever is on it: wrong types, missing ends, unknown and repeated fields, or a stream
  that breaks off. They return or throw; their loops cannot run for ever.
\<close>

theorem readers_end:
  assumes "input_ends prot left"
  shows "(\<exists>r w'. timing_read prot t w = Some (r, w')) \<and> (\<exists>r w'. Bench_bench_args_read prot args w = Some (r, w')) \<and>
    (\<exists>r w'. Bench_bench_result_read prot res w = Some (r, w')) \<and>
    (\<exists>r w'. Bench_bench_presult_read prot pres w = Some (r, w')) \<and>
    (\<exists>r w'. BenchClient_recv_bench \<lparr>iprot = prot, oprot = outp\<rparr> w = Some (r, w'))"
  by (intro conjI ends_outcome [of left] input_ends.timing_read_ends [OF assms] input_ends.Bench_bench_args_read_ends [OF assms]
      input_ends.Bench_bench_result_read_ends [OF assms] input_ends.Bench_bench_presult_read_ends [OF assms]
      input_ends.recv_bench_ends [OF assms]) simp

theorem readers_end_witness:
  "\<exists>r w'. timing_read (memory_protocol unit_cost) timing_ctor (port_with [Struct_begin, Field_begin T_I64 1, String_token ''x'']) =
     Some (r, w')"
  using readers_end [OF memory_ends.rd.input_ends_axioms [of unit_cost], where t = timing_ctor
      and w = "port_with [Struct_begin, Field_begin T_I64 1, String_token ''x'']"]
  by blast

text \<open>
  C18: what a peer sends cannot hang the server or take it down: with a handler and an event
  handler that end, and that only answer or throw, \<open>dispatchCall\<close> on any finite stream, any
  method name and any sequence id returns true or throws. It never exits and has no undefined behaviour.
\<close>

theorem dispatchCall_total:
  assumes "server_ends inp outp left" and "processor_ends left p"
    and "sound_input inp" and "sound_output outp" and "sound_processor p"
  shows "\<exists>w'. dispatchCall what p inp outp fname q c w = Some (Inr True, w') \<or>
    (\<exists>x. dispatchCall what p inp outp fname q c w = Some (Inl (Throw x), w'))"
proof -
  obtain r w' where r: "dispatchCall what p inp outp fname q c w = Some (r, w')"
    using server_ends.dispatchCall_ends [OF assms(1,2)] by (rule endsE)
  show ?thesis
  proof (cases r)
    case (Inl e)
    with r gives_Inl [OF dispatchCall_sound [OF assms(3-5)]] show ?thesis
      by (fastforce simp: thrown_def)
  next
    case (Inr b)
    with r gives_Inr [OF dispatchCall_sound [OF assms(3-5)]] show ?thesis
      by auto
  qed
qed

text \<open>
  C20: the clients' results are well-formed: over any protocol whose calls return or throw,
  whatever is on the wire, \<open>recv_bench\<close> of both clients returns a value that a reply has
  set, or throws. The variable \<open>_return\<close>, which the code does not initialise, is not read
  unset.
\<close>

theorem recv_bench_initialised:
  assumes "sound_input prot" and "sound_sync sy"
  shows "gives thrown (\<lambda>_. True) (BenchClient_recv_bench \<lparr>iprot = prot, oprot = outp\<rparr>) \<and>
    gives thrown (\<lambda>_. True) (BenchConcurrentClient_recv_bench \<lparr>iprot = prot, oprot = outp, sync = sy\<rparr> q) \<and>
    gives thrown (\<lambda>(r, n). presult_isset_success r \<longrightarrow> presult_success r \<noteq> None)
      (Bench_bench_presult_read prot Bench_bench_presult_ctor)"
proof -
  have "gives thrown (\<lambda>(r, n). presult_wf r) (Bench_bench_presult_read prot Bench_bench_presult_ctor)"
    unfolding Bench_bench_presult_read_def
    by (rule read_struct_wf [OF assms(1) presult_cases_wf [OF assms(1)]])
      (simp_all add: presult_wf_def Bench_bench_presult_ctor_def)
  then show ?thesis
    using BenchClient_recv_bench_sound [of "\<lparr>iprot = prot, oprot = outp\<rparr>"]
      BenchConcurrentClient_recv_bench_sound [of "\<lparr>iprot = prot, oprot = outp, sync = sy\<rparr>" q] assms
    by (simp add: presult_wf_def)
qed

text \<open>The witnesses: the protocol in memory, and the shared stream of \<open>Thrift_Concurrent\<close>.\<close>

lemma take_token_sound: "sound (take_token f)"
  by (rule givesI) (auto simp: take_token_def split: list.splits option.splits)

lemma memory_call_sound: "sound (modifyP f)" "sound (enter_depth get put)" "sound (skip (memory_protocol cost) t)"
  by (auto intro!: givesI simp: modifyP_def enter_depth_def memory_protocol_def split: if_splits option.splits)

lemmas memory_skip_sound = memory_call_sound(3) [unfolded memory_protocol_def, simplified]

lemma memory_sound: "sound_input (memory_protocol cost)" "sound_output (memory_protocol cost)"
  by (simp_all add: sound_input_def sound_output_def take_token_sound gives_result memory_call_sound(1,2)
      memory_skip_sound memory_protocol_def put_unit_def put_token_def sound_seq)

theorem dispatchCall_total_witness:
  "\<exists>r w'. dispatchCall (\<lambda>e. []) (BenchProcessor_ctor BenchNull_bench) (memory_protocol unit_cost) (memory_protocol unit_cost)
     ''bench'' 7 0 (port_with [Struct_end]) = Some (r, w')"
  using dispatchCall_total [OF memory_ends.server_ends_axioms [of unit_cost] _ memory_sound, where p = "BenchProcessor_ctor BenchNull_bench"
      and what = "\<lambda>e. []" and fname = "''bench''" and q = 7 and c = 0 and w = "port_with [Struct_end]"]
  by (auto simp: processor_ends_def sound_processor_def BenchProcessor_ctor_def BenchNull_bench_def ends_result gives_result)

theorem recv_bench_initialised_witness:
  "\<forall>e w'. BenchConcurrentClient_recv_bench sharing_client 1 shared_stream \<noteq> Some (Inl (Undef e), w')"
proof -
  have sync: "sound_sync other_thread_sync"
    by (simp add: sound_sync_def other_thread_sync_def gives_result) (simp add: gives_def modifyP_def)
  have "gives thrown (\<lambda>_. True) (BenchConcurrentClient_recv_bench sharing_client 1)"
    using recv_bench_initialised [OF memory_sound(1) [of unit_cost] sync, where outp = "memory_protocol unit_cost" and q = 1]
    by (simp add: sharing_client_def BenchConcurrentClient_ctor_def)
  then show ?thesis
    by (auto simp: gives_def thrown_def)
qed

end
