(* ===== verification/Latency.thy ===== *)
theory Latency
  imports Cpp_Int
begin

text \<open>
  What the sinks of the four C++ benchmarks share: the state (the multiset of samples and
  the process's standard output), the per-hop latency, the reference statistics, and the
  interface \<open>latency_sink\<close> with the lemmas on whole runs proved once from its laws.
  Each sink's own code is in its component's theory, which interprets the interface.
\<close>

section \<open>State of a sink and the reference behaviour\<close>

text \<open>
  \<open>sink_data\<close> (the member \<open>data_\<close>) is the sink's \<open>std::unordered_multiset<int64_t>\<close>; \<open>cout\<close> the text the process
  has written so far. The order in which an \<open>unordered_multiset\<close> is iterated is not
  specified: each call of a sink gets it as a function \<open>iter\<close>, of which only
  \<open>enumerates\<close> is assumed (the standard's guarantee that iteration visits every element
  once). Another function may be given to every call.
\<close>

record sink_state =
  sink_data :: "int64 multiset"
  cout :: string

definition empty_sink :: sink_state where
  "empty_sink = \<lparr>sink_data = {#}, cout = []\<rparr>"

type_synonym iteration = "int64 multiset \<Rightarrow> int64 list"

definition enumerates :: "iteration \<Rightarrow> bool" where
  "enumerates iter \<longleftrightarrow> (\<forall>M. mset (iter M) = M)"

lemma enumerates_sorted_list: "enumerates sorted_list_of_multiset"
  by (simp add: enumerates_def)

text \<open>Every enumeration of the samples sorts to the same vector.\<close>

lemma sort_iter [prog_simps]: "enumerates iter \<Longrightarrow> sort (iter M) = sorted_list_of_multiset M"
  by (metis enumerates_def sorted_list_of_multiset_mset)

lemma length_iter [simp]: "enumerates iter \<Longrightarrow> length (iter M) = size M"
  by (metis enumerates_def size_mset)

definition print :: "string \<Rightarrow> (sink_state, unit) prog" where
  "print t = modifyP (\<lambda>s. s\<lparr>cout := cout s @ t\<rparr>)"

definition insert_sample :: "int64 \<Rightarrow> (sink_state, unit) prog" where
  "insert_sample x = modifyP (\<lambda>s. s\<lparr>sink_data := add_mset x (sink_data s)\<rparr>)"

definition endl :: string where
  "endl = [CHR 0x0A]"

text \<open>The per-hop latency every sink computes, over \<open>h\<close> hops.\<close>

definition per_hop :: "int64 \<Rightarrow> int64 \<Rightarrow> int64 \<Rightarrow> stop + int64" where
  "per_hop h now sent = (case sub_i64 now sent of Inl e \<Rightarrow> Inl e | Inr d \<Rightarrow> div_i64 d h)"

lemma per_hop_Inr:
  assumes "0 < ival h"
  shows "per_hop h now sent = Inr x \<longleftrightarrow>
    in_i64 (ival now - ival sent) \<and> ival x = (ival now - ival sent) sdiv ival h"
proof (cases "sub_i64 now sent")
  case (Inl e)
  then show ?thesis
    by (auto simp: per_hop_def sub_i64_def check_i64_def split: if_splits)
next
  case (Inr d)
  then have d: "in_i64 (ival now - ival sent)" "ival d = ival now - ival sent"
    by (simp_all add: sub_i64_def check_i64_Inr)
  obtain q where "div_i64 d h = Inr q" "ival q = ival d sdiv ival h"
    using div_i64_pos [OF assms] by blast
  with Inr d show ?thesis
    by (auto simp: per_hop_def simp flip: ival_inject)
qed

lemma per_hop_Inl:
  assumes "0 < ival h"
  shows "per_hop h now sent = Inl e \<longleftrightarrow>
    \<not> in_i64 (ival now - ival sent) \<and> e = Undef Signed_overflow"
proof (cases "sub_i64 now sent")
  case (Inl e')
  then show ?thesis
    by (auto simp: per_hop_def sub_i64_def check_i64_def split: if_splits)
next
  case (Inr d)
  then have "in_i64 (ival now - ival sent)"
    by (simp add: sub_i64_def check_i64_Inr)
  with Inr show ?thesis
    using div_i64_pos [OF assms, of d] by (auto simp: per_hop_def)
qed

lemma per_hop_eq:
  assumes "0 < ival h"
  shows "per_hop h now sent =
    (if in_i64 (ival now - ival sent) then Inr (i64 ((ival now - ival sent) sdiv ival h))
     else Inl (Undef Signed_overflow))"
proof (cases "per_hop h now sent")
  case (Inl e)
  then show ?thesis
    using per_hop_Inl [OF assms] by simp
next
  case (Inr x)
  then have "in_i64 (ival now - ival sent)" "ival x = (ival now - ival sent) sdiv ival h"
    using per_hop_Inr [OF assms] by simp_all
  with Inr show ?thesis
    by (metis i64_ival)
qed

text \<open>With a clock that starts at 0 and does not go back, the subtraction cannot overflow.\<close>

lemma per_hop_monotone_clock:
  assumes "0 < ival h" and "0 \<le> ival sent" and "ival sent \<le> ival now"
  shows "\<exists>x. per_hop h now sent = Inr x \<and> ival x = (ival now - ival sent) div ival h"
proof -
  have "in_i64 (ival now - ival sent)"
    using assms in_i64_ival [of now] by (simp add: in_i64_def)
  moreover have "(ival now - ival sent) sdiv ival h = (ival now - ival sent) div ival h"
    using assms by (simp add: signed_divide_int_def sgn_if)
  moreover have "in_i64 ((ival now - ival sent) div ival h)"
    using assms calculation sdiv_pos_bounds(1) [of "ival h" "ival now - ival sent"]
    by (simp add: in_i64_def) linarith
  ultimately show ?thesis
    using assms(1) by (intro exI [of _ "i64 ((ival now - ival sent) div ival h)"])
      (simp add: per_hop_Inr ival_i64)
qed

text \<open>The text \<open>print_stats\<close> writes for a sorted vector of \<open>n\<close> samples.\<close>

definition stats_text :: "nat \<Rightarrow> int64 \<Rightarrow> int64 \<Rightarrow> string" where
  "stats_text n p50 p90 =
     endl @ ''Stats with '' @ show_nat n @ '' data points, ns/hop:'' @
     endl @ ''P50 = '' @ to_string (ival p50 sdiv 1000) @
     ''us, P90 = '' @ to_string (ival p90 sdiv 1000) @ ''us'' @ endl @ endl"

definition percentile :: "nat \<Rightarrow> int64 multiset \<Rightarrow> int64" where
  "percentile k M = sorted_list_of_multiset M ! k"

definition stats_report :: "int64 multiset \<Rightarrow> string" where
  "stats_report M = stats_text (size M) (percentile (size M div 2) M) (percentile (size M * 9 div 10) M)"

lemma percentile_in: "k < size M \<Longrightarrow> percentile k M \<in># M"
  unfolding percentile_def
  by (metis mset_sorted_list_of_multiset nth_mem_mset size_mset)

lemma percentile_rank:
  assumes "k < size M"
  shows "k < size (filter_mset (\<lambda>x. x \<le> percentile k M) M)"
    and "size M - k \<le> size (filter_mset (\<lambda>x. percentile k M \<le> x) M)"
  using sorted_count_le [of "sorted_list_of_multiset M" k]
    sorted_count_ge [of "sorted_list_of_multiset M" k] assms
  by (simp_all add: percentile_def flip: size_mset)

text \<open>
  The reads of \<open>print_stats\<close>: on a non-empty vector the two indices are in range, and the
  conversion to microseconds is always defined.
\<close>

lemma length_sorted_list_of_multiset [simp]: "length (sorted_list_of_multiset M) = size M"
  by (metis mset_sorted_list_of_multiset size_mset)

lemma vector_at_percentile:
  assumes "M \<noteq> {#}" and "size M < 2 ^ 27"
  shows "vector_at (sorted_list_of_multiset M) (int_of_size (size_of (size M) div 2)) =
      Inr (percentile (size M div 2) M)"
    and "vector_at (sorted_list_of_multiset M) (int_of_size (size_of (size M) * 9 div 10)) =
      Inr (percentile (size M * 9 div 10) M)"
proof -
  have "0 < size M"
    using assms(1) by (simp add: nonempty_has_size)
  then have "size M div 2 < size M" and "size M * 9 div 10 < size M"
    by (auto simp: less_mult_imp_div_less)
  then show "vector_at (sorted_list_of_multiset M) (int_of_size (size_of (size M) div 2)) =
      Inr (percentile (size M div 2) M)"
    and "vector_at (sorted_list_of_multiset M) (int_of_size (size_of (size M) * 9 div 10)) =
      Inr (percentile (size M * 9 div 10) M)"
    unfolding size_of_index [OF assms(2)] vector_at_def percentile_def by simp_all
qed

lemma vector_at_empty [simp]: "vector_at [] i = Inl (Undef Index_out_of_range)"
  by (simp add: vector_at_def)

lemma div_us: "div_i64 x (i64 1000) = Inr (i64 (ival x sdiv 1000))"
  and ival_us: "ival (i64 (ival x sdiv 1000)) = ival x sdiv 1000"
proof -
  have "ival (i64 1000) = 1000"
    by (simp add: ival_i64 in_i64_def)
  then obtain q where q: "div_i64 x (i64 1000) = Inr q" "ival q = ival x sdiv 1000"
    using div_i64_pos [of "i64 1000" x] by auto
  then have "i64 (ival x sdiv 1000) = q"
    by (metis i64_ival)
  with q show "div_i64 x (i64 1000) = Inr (i64 (ival x sdiv 1000))"
    and "ival (i64 (ival x sdiv 1000)) = ival x sdiv 1000"
    by simp_all
qed

lemmas report_simps = sort_iter vector_at_percentile div_us ival_us Let_def

text \<open>The behaviour of a sink's callback, branch by branch, that each sink's code is shown to have.\<close>

definition sink_outcome :: "(int64 \<Rightarrow> string) \<Rightarrow> 'r \<Rightarrow> stop + int64 \<Rightarrow> sink_state \<Rightarrow> ((stop + 'r) \<times> sink_state) option" where
  "sink_outcome line answer latency s = (case latency of
     Inl e \<Rightarrow> Some (Inl e, s)
   | Inr x \<Rightarrow>
       (let M = add_mset x (sink_data s); t = cout s @ line x
        in if size M < 1000 then Some (Inr answer, \<lparr>sink_data = M, cout = t\<rparr>)
           else Some (Inl (Exit 0), \<lparr>sink_data = M, cout = t @ stats_report M\<rparr>)))"

text \<open>With a clock that starts at 0 and does not go back, no sample is negative or exceeds its share of the clock.\<close>

definition samples_within :: "int64 \<Rightarrow> sink_state \<Rightarrow> bool" where
  "samples_within now s \<longleftrightarrow> (\<forall>x \<in># sink_data s. 0 \<le> ival x \<and> 21 * ival x \<le> ival now)"

lemma samples_within_cout [simp]: "samples_within now (s\<lparr>cout := t\<rparr>) = samples_within now s"
  by (simp add: samples_within_def)

lemma samples_within_mono: "samples_within c s \<Longrightarrow> ival c \<le> ival now \<Longrightarrow> samples_within now s"
  by (force simp: samples_within_def)

lemma sink_outcome_within:
  assumes "sink_outcome line answer (per_hop (i64 21) now sent) s = Some (r, s')" and "samples_within now s"
    and "0 \<le> ival sent" and "ival sent \<le> ival now"
  shows "samples_within now s'"
proof -
  have "ival (i64 21) = 21"
    by (simp add: ival_i64 in_i64_def)
  then obtain x where x: "per_hop (i64 21) now sent = Inr x" "ival x = (ival now - ival sent) div 21"
    using per_hop_monotone_clock [of "i64 21" sent now] assms(3,4) by auto
  then have "0 \<le> ival x" "21 * ival x \<le> ival now"
    using assms(3,4) by simp_all
  with assms(1,2) x(1) show ?thesis
    by (auto simp: sink_outcome_def samples_within_def Let_def split: if_splits)
qed

section \<open>The interface of a sink\<close>

text \<open>
  \<open>handle iter now m\<close> is the sink's callback on message \<open>m\<close> at clock reading \<open>now\<close>.
  Its laws: below the thousandth sample it records the latency, writes its line and answers;
  on the thousandth it also reports and exits with code 0. Nothing is promised when the
  latency is undefined.
\<close>

locale latency_sink =
  fixes handle :: "iteration \<Rightarrow> int64 \<Rightarrow> 'm \<Rightarrow> (sink_state, 'r) prog"
    and hops :: int64
    and stamp :: "'m \<Rightarrow> int64"
    and answer :: "'m \<Rightarrow> 'r"
    and line :: "int64 \<Rightarrow> string"
  assumes below: "enumerates iter \<Longrightarrow> per_hop hops now (stamp m) = Inr x \<Longrightarrow> size (sink_data s) < 999 \<Longrightarrow>
      handle iter now m s =
        Some (Inr (answer m), \<lparr>sink_data = add_mset x (sink_data s), cout = cout s @ line x\<rparr>)"
    and last: "enumerates iter \<Longrightarrow> per_hop hops now (stamp m) = Inr x \<Longrightarrow> size (sink_data s) = 999 \<Longrightarrow>
      handle iter now m s =
        Some (Inl (Exit 0), \<lparr>sink_data = add_mset x (sink_data s),
          cout = cout s @ line x @ stats_report (add_mset x (sink_data s))\<rparr>)"

text \<open>A callback with the behaviour \<open>sink_outcome\<close> meets the interface.\<close>

lemma latency_sinkI:
  assumes "\<And>iter now m s. enumerates iter \<Longrightarrow> size (sink_data s) < 2 ^ 26 \<Longrightarrow>
    handle iter now m s = sink_outcome line (answer m) (per_hop hops now (stamp m)) s"
  shows "latency_sink handle hops stamp answer line"
  by (rule latency_sink.intro) (simp_all add: assms sink_outcome_def Let_def)

text \<open>A run: the messages in the order they arrive, each with its iteration order and clock reading.\<close>

type_synonym 'm arrival = "iteration \<times> int64 \<times> 'm"

fun feed :: "(iteration \<Rightarrow> int64 \<Rightarrow> 'm \<Rightarrow> ('s, 'r) prog) \<Rightarrow> 'm arrival list \<Rightarrow> ('s, 'r list) prog" where
  "feed h [] = returnP []"
| "feed h ((iter, now, m) # as) = bindP (h iter now m) (\<lambda>r. bindP (feed h as) (\<lambda>rs. returnP (r # rs)))"

text \<open>\<open>latencies h stamp as xs\<close>: the arrivals have the defined latencies \<open>xs\<close>, in order.\<close>

definition latencies :: "int64 \<Rightarrow> ('m \<Rightarrow> int64) \<Rightarrow> 'm arrival list \<Rightarrow> int64 list \<Rightarrow> bool" where
  "latencies h stamp as xs \<longleftrightarrow>
     list_all2 (\<lambda>(iter, now, m) x. enumerates iter \<and> per_hop h now (stamp m) = Inr x) as xs"

lemma latencies_length: "latencies h stamp as xs \<Longrightarrow> length as = length xs"
  by (auto simp: latencies_def dest: list_all2_lengthD)

lemma latencies_simps [simp]:
  "latencies h stamp [] xs \<longleftrightarrow> xs = []"
  "latencies h stamp ((iter, now, m) # as) xs \<longleftrightarrow>
     (\<exists>y ys. xs = y # ys \<and> enumerates iter \<and> per_hop h now (stamp m) = Inr y \<and> latencies h stamp as ys)"
  by (auto simp: latencies_def list_all2_Cons1)

context latency_sink
begin

lemma feed_below:
  assumes "latencies hops stamp as xs" and "size (sink_data s) + length as < 1000"
  shows "feed handle as s = Some (Inr (map (\<lambda>(_, _, m). answer m) as),
    \<lparr>sink_data = sink_data s + mset xs, cout = cout s @ concat (map line xs)\<rparr>)"
  using assms
proof (induction as arbitrary: s xs)
  case Nil
  then show ?case by (simp add: returnP_def)
next
  case (Cons a as)
  obtain iter now m where a: "a = (iter, now, m)"
    by (cases a)
  with Cons.prems obtain y ys where y: "xs = y # ys" "enumerates iter"
      "per_hop hops now (stamp m) = Inr y" "latencies hops stamp as ys"
    by auto
  let ?s = "\<lparr>sink_data = add_mset y (sink_data s), cout = cout s @ line y\<rparr>"
  have "handle iter now m s = Some (Inr (answer m), ?s)"
    using y Cons.prems by (intro below) auto
  moreover have "feed handle as ?s = Some (Inr (map (\<lambda>(_, _, m). answer m) as),
      \<lparr>sink_data = sink_data ?s + mset ys, cout = cout ?s @ concat (map line ys)\<rparr>)"
    using y Cons.prems by (intro Cons.IH) auto
  ultimately show ?case
    by (simp add: a y bindP_def returnP_def)
qed

text \<open>The thousandth sample ends the process, whatever would have come after it.\<close>

lemma feed_exit:
  assumes "latencies hops stamp as xs" and "size (sink_data s) + length as = 1000" and "as \<noteq> []"
  shows "feed handle (as @ later) s = Some (Inl (Exit 0),
    \<lparr>sink_data = sink_data s + mset xs,
     cout = cout s @ concat (map line xs) @ stats_report (sink_data s + mset xs)\<rparr>)"
  using assms
proof (induction as arbitrary: s xs)
  case Nil
  then show ?case by simp
next
  case (Cons a as)
  obtain iter now m where a: "a = (iter, now, m)"
    by (cases a)
  with Cons.prems obtain y ys where y: "xs = y # ys" "enumerates iter"
      "per_hop hops now (stamp m) = Inr y" "latencies hops stamp as ys"
    by auto
  show ?case
  proof (cases "as = []")
    case True
    with y have [simp]: "ys = []" by simp
    have "handle iter now m s = Some (Inl (Exit 0), \<lparr>sink_data = add_mset y (sink_data s),
        cout = cout s @ line y @ stats_report (add_mset y (sink_data s))\<rparr>)"
      using y Cons.prems True by (intro last) auto
    with True show ?thesis
      by (simp add: a y bindP_def)
  next
    case False
    let ?s = "\<lparr>sink_data = add_mset y (sink_data s), cout = cout s @ line y\<rparr>"
    have "size (sink_data s) < 999"
      using False Cons.prems(2) by (cases as) auto
    then have "handle iter now m s = Some (Inr (answer m), ?s)"
      using y by (intro below)
    moreover have "feed handle (as @ later) ?s = Some (Inl (Exit 0),
        \<lparr>sink_data = sink_data ?s + mset ys,
         cout = cout ?s @ concat (map line ys) @ stats_report (sink_data ?s + mset ys)\<rparr>)"
      using y Cons.prems False by (intro Cons.IH) auto
    ultimately show ?thesis
      by (simp add: a y bindP_def)
  qed
qed

text \<open>So a sink never holds a thousand samples while it still answers.\<close>

lemma feed_size:
  assumes "latencies hops stamp as xs" and "feed handle as empty_sink = Some (Inr rs, s')"
  shows "size (sink_data s') < 1000"
proof (cases "length as < 1000")
  case True
  then show ?thesis
    using feed_below [of as xs empty_sink] assms latencies_length [OF assms(1)]
    by (auto simp: empty_sink_def)
next
  case False
  then have split: "as = take 1000 as @ drop 1000 as" and len: "length (take 1000 as) = 1000"
    by simp_all
  have "latencies hops stamp (take 1000 as) (take 1000 xs)"
    using assms(1) by (simp add: latencies_def list_all2_takeI)
  then have "\<exists>s. feed handle as empty_sink = Some (Inl (Exit 0), s)"
    using feed_exit [of "take 1000 as" "take 1000 xs" empty_sink "drop 1000 as"] len
    by (subst split) (force simp: empty_sink_def)
  then show ?thesis
    using assms(2) by auto
qed

end

end
