(* ===== verification/Chain.thy ===== *)
theory Chain
  imports Prelude
begin

text \<open>
  The topology of the two synchronous benchmarks (thrift and gRPC), as an interface:
  a call to hop \<open>i\<close> is served by relay \<open>i\<close>, which calls hop \<open>i + 1\<close> with its own copy of
  the message and turns that answer into its own; the hop after the last relay is the sink.
  The first argument of \<open>call\<close> bounds the number of hops, the second is the hop. Proved once from these laws:
  what the sink is called with, what the client gets back, and how many hops it takes.
\<close>

text \<open>\<open>k\<close> relays from number \<open>i\<close> on: the message after them, and the answer on its way back.\<close>

fun copies :: "(nat \<Rightarrow> 'm \<Rightarrow> 'm) \<Rightarrow> nat \<Rightarrow> nat \<Rightarrow> 'm \<Rightarrow> 'm" where
  "copies copy i 0 m = m"
| "copies copy i (Suc k) m = copies copy (Suc i) k (copy i m)"

fun answers :: "(nat \<Rightarrow> 'm \<Rightarrow> 'm) \<Rightarrow> (nat \<Rightarrow> 'm \<Rightarrow> 'r \<Rightarrow> 'r) \<Rightarrow> nat \<Rightarrow> nat \<Rightarrow> 'm \<Rightarrow> 'r \<Rightarrow> 'r" where
  "answers copy reply i 0 m r = r"
| "answers copy reply i (Suc k) m r = reply i m (answers copy reply (Suc i) k (copy i m) r)"

locale rpc_chain =
  fixes call :: "nat \<Rightarrow> nat \<Rightarrow> 'm \<Rightarrow> ('w, 'r) prog"
    and sink :: "'m \<Rightarrow> ('w, 'r) prog"
    and copy :: "nat \<Rightarrow> 'm \<Rightarrow> 'm"
    and reply :: "nat \<Rightarrow> 'm \<Rightarrow> 'r \<Rightarrow> 'r"
    and relays :: nat
  assumes call_0: "call 0 i m w = None"
    and call_relay: "i < relays \<Longrightarrow> call (Suc n) i m =
      bindP (call n (Suc i) (copy i m)) (\<lambda>r. returnP (reply i m r))"
    and call_sink: "call (Suc n) relays m = sink m"
begin

lemma call_reaches:
  assumes "i + k = relays" and "k \<le> n"
  shows "call (Suc n) i m =
    bindP (sink (copies copy i k m)) (\<lambda>r. returnP (answers copy reply i k m r))"
  using assms
proof (induction k arbitrary: i n m)
  case 0
  then show ?case by (simp add: call_sink)
next
  case (Suc k)
  then obtain n' where n: "n = Suc n'"
    by (cases n) auto
  have "call (Suc n') (Suc i) (copy i m) =
      bindP (sink (copies copy (Suc i) k (copy i m)))
        (\<lambda>r. returnP (answers copy reply (Suc i) k (copy i m) r))"
    using Suc.prems n by (intro Suc.IH) simp_all
  moreover have "i < relays"
    using Suc.prems by simp
  ultimately show ?case
    by (simp add: n call_relay bind_assoc del: call_sink)
qed

lemma call_short:
  assumes "i + k = relays" and "n \<le> k"
  shows "call n i m w = None"
  using assms
proof (induction n arbitrary: i k m)
  case 0
  then show ?case by (simp add: call_0)
next
  case (Suc n)
  then obtain k' where k: "k = Suc k'"
    by (cases k) auto
  have "call n (Suc i) (copy i m) w = None"
    using Suc.prems k by (intro Suc.IH [of "Suc i" k']) simp_all
  moreover have "i < relays"
    using Suc.prems k by simp
  ultimately show ?case
    by (simp add: call_relay bindP_NoneI)
qed

text \<open>Exactly \<open>relays + 1\<close> hops are needed from the first relay.\<close>

lemma call_hops:
  "call n 0 m w =
     (if relays < n
      then bindP (sink (copies copy 0 relays m)) (\<lambda>r. returnP (answers copy reply 0 relays m r)) w
      else None)"
proof (cases "relays < n")
  case True
  then obtain n' where "n = Suc n'" and "relays \<le> n'"
    by (cases n) auto
  then show ?thesis
    using call_reaches [of 0 relays n' m] by simp
next
  case False
  then show ?thesis
    using call_short [of 0 relays n m w] by simp
qed

end

end
