(* ===== verification/Thrift_Bench.thy ===== *)
theory Thrift_Bench
  imports Thrift_Types Latency Chain
begin

text \<open>
  \<open>thrift-bench/bench.cpp\<close>: the client, relay and sink of the thrift benchmark, their
  wiring by port number in \<open>main\<close>, and the client loop. The call a handler makes is a
  parameter here (the generated client and processor are the subject of \<open>Thrift_Rpc\<close>):
  \<open>client_call\<close> composes the handlers the way the ports of \<open>main\<close> connect them.
\<close>

section \<open>Constants and objects\<close>

definition kRelayPortStart :: int where
  "kRelayPortStart = 5000"

definition kNumRelays :: int where
  "kNumRelays = 20"

text \<open>
  \<open>RelayClient(id)\<close> keeps the port it will connect to; \<open>prepare\<close> opens the transport.
  \<open>RelayHandler(id)\<close> keeps its id and a client for the next port.
\<close>

record RelayClient =
  client_port :: int
  opened :: bool

record RelayHandler =
  relay_id :: int
  relay_client :: RelayClient

definition RelayClient_ctor :: "int \<Rightarrow> RelayClient" where
  "RelayClient_ctor i = \<lparr>client_port = i + kRelayPortStart, opened = False\<rparr>"

definition RelayClient_prepare :: "RelayClient \<Rightarrow> RelayClient" where
  "RelayClient_prepare c = c\<lparr>opened := True\<rparr>"

definition RelayHandler_ctor :: "int \<Rightarrow> RelayHandler" where
  "RelayHandler_ctor i = \<lparr>relay_id = i, relay_client = RelayClient_ctor (i + 1)\<rparr>"

definition RelayHandler_prepare :: "RelayHandler \<Rightarrow> RelayHandler" where
  "RelayHandler_prepare h = h\<lparr>relay_client := RelayClient_prepare (relay_client h)\<rparr>"

text \<open>
  The relay's handler builds a fresh message from the argument's id and time stamp, with its
  own name as the source, and forwards it; what the next hop answers is its answer.
\<close>

definition relay_copy :: "int \<Rightarrow> timing \<Rightarrow> timing" where
  "relay_copy i arg =
     (let copy = timing_ctor;
          copy = copy\<lparr>msgid := msgid arg\<rparr>;
          copy = copy\<lparr>nanosec := nanosec arg\<rparr>;
          copy = copy\<lparr>source := ''relay '' @ to_string i\<rparr>
      in copy)"

definition RelayHandler_bench ::
    "RelayHandler \<Rightarrow> (RelayClient \<Rightarrow> timing \<Rightarrow> ('w, int64) prog) \<Rightarrow> timing \<Rightarrow> ('w, int64) prog" where
  "RelayHandler_bench h client_bench arg = client_bench (relay_client h) (relay_copy (relay_id h) arg)"

section \<open>The sink\<close>

definition SinkHandler_print_stats :: "iteration \<Rightarrow> (sink_state, unit) prog" where
  "SinkHandler_print_stats iter =
     bindP (getP (\<lambda>s. sort (iter (sink_data s)))) (\<lambda>array.
     let p50_index = int_of_size (size_of (length array) div 2);
         p90_index = int_of_size (size_of (length array) * 9 div 10)
     in bindP (pureP (vector_at array p50_index)) (\<lambda>p50.
        bindP (pureP (div_i64 p50 (i64 1000))) (\<lambda>p50_us.
        bindP (pureP (vector_at array p90_index)) (\<lambda>p90.
        bindP (pureP (div_i64 p90 (i64 1000))) (\<lambda>p90_us.
        print (endl @ ''Stats with '' @ show_nat (length array) @ '' data points, ns/hop:'' @
          endl @ ''P50 = '' @ to_string (ival p50_us) @ ''us, P90 = '' @
          to_string (ival p90_us) @ ''us'' @ endl @ endl))))))"

definition SinkHandler_bench :: "iteration \<Rightarrow> int64 \<Rightarrow> timing \<Rightarrow> (sink_state, int64) prog" where
  "SinkHandler_bench iter now arg =
     bindP (pureP (sub_i64 now (nanosec arg))) (\<lambda>elapsed.
     bindP (pureP (div_i64 elapsed (i64 (kNumRelays + 1)))) (\<lambda>nanosec_per_hop.
     seqP (insert_sample nanosec_per_hop) (
     seqP (print (''nano seconds per hop: '' @ to_string (ival nanosec_per_hop) @ endl)) (
     bindP (getP (\<lambda>s. size (sink_data s))) (\<lambda>n.
     seqP (if 1000 \<le> n then seqP (SinkHandler_print_stats iter) (stopP (Exit 0)) else returnP ()) (
     returnP (msgid arg)))))))"


lemma SinkHandler_print_stats_report:
  assumes "enumerates iter" and "sink_data s \<noteq> {#}" and "size (sink_data s) < 2 ^ 27"
  shows "SinkHandler_print_stats iter s =
    Some (Inr (), s\<lparr>cout := cout s @ stats_report (sink_data s)\<rparr>)"
  using assms
  by (simp add: SinkHandler_print_stats_def prog_defs report_simps print_def
      stats_report_def stats_text_def)

lemma thrift_hops: "i64 (kNumRelays + 1) = i64 21" "ival (i64 21) = 21"
  by (simp_all add: kNumRelays_def ival_i64 in_i64_def)

text \<open>The line the sink writes per message.\<close>

definition latency_line :: "int64 \<Rightarrow> string" where
  "latency_line x = ''nano seconds per hop: '' @ to_string (ival x) @ endl"

lemma SinkHandler_bench_cases:
  assumes "enumerates iter" and "size (sink_data s) < 2 ^ 26"
  shows "SinkHandler_bench iter now m s =
    sink_outcome latency_line (msgid m) (per_hop (i64 (kNumRelays + 1)) now (nanosec m)) s"
proof (cases "per_hop (i64 (kNumRelays + 1)) now (nanosec m)")
  case (Inl e)
  then show ?thesis
    by (auto simp: per_hop_def sink_outcome_def SinkHandler_bench_def prog_defs split: sum.splits)
next
  case (Inr x)
  then obtain d where "sub_i64 now (nanosec m) = Inr d" "div_i64 d (i64 (kNumRelays + 1)) = Inr x"
    by (auto simp: per_hop_def split: sum.splits)
  with Inr assms show ?thesis
    by (cases s) (simp add: SinkHandler_bench_def sink_outcome_def prog_defs insert_sample_def
        print_def latency_line_def SinkHandler_print_stats_report Let_def)
qed

interpretation thrift_sink: latency_sink SinkHandler_bench "i64 21" nanosec msgid latency_line
  by (rule latency_sinkI) (simp add: SinkHandler_bench_cases thrift_hops)

section \<open>Servers and their wiring\<close>

text \<open>
  \<open>main\<close> holds each relay handler by a shared pointer, and the server of the same index
  holds the same object: \<open>served\<close> refers to it by its position in \<open>handlers\<close>, so that
  \<open>prepare\<close> is seen by the server.
\<close>

datatype handler_ref = Relay_ref nat | Sink_ref

record BenchServer =
  server_port :: int
  served :: handler_ref

record thrift_main =
  handlers :: "RelayHandler list"
  relays :: "BenchServer list"
  sink_server :: BenchServer
  main_client :: RelayClient

definition BenchServer_ctor :: "int \<Rightarrow> handler_ref \<Rightarrow> BenchServer" where
  "BenchServer_ctor i handler = \<lparr>server_port = i + kRelayPortStart, served = handler\<rparr>"

definition main_create :: thrift_main where
  "main_create = \<lparr>
     handlers = map RelayHandler_ctor [0..kNumRelays - 1],
     relays = map (\<lambda>i. BenchServer_ctor i (Relay_ref (nat i))) [0..kNumRelays - 1],
     sink_server = BenchServer_ctor kNumRelays Sink_ref,
     main_client = RelayClient_ctor 0\<rparr>"

definition main_prepare :: "thrift_main \<Rightarrow> thrift_main" where
  "main_prepare st = st\<lparr>handlers := map RelayHandler_prepare (handlers st),
     main_client := RelayClient_prepare (main_client st)\<rparr>"

definition servers :: "thrift_main \<Rightarrow> BenchServer list" where
  "servers st = relays st @ [sink_server st]"

text \<open>
  A client's \<open>bench\<close> on an open transport runs the handler that serves its port and
  returns its answer (\<open>Thrift_Chain\<close> shows the same of calls through the generated code); on a transport that
  is not open, and when nothing serves the port, the transport throws. The first argument
  bounds the number of hops; \<open>client_call_reaches_sink\<close> says how many are enough.
\<close>

fun client_call :: "nat \<Rightarrow> thrift_main \<Rightarrow> (timing \<Rightarrow> ('w, int64) prog) \<Rightarrow> RelayClient \<Rightarrow> timing \<Rightarrow> ('w, int64) prog" where
  "client_call 0 st sink c msg = (\<lambda>w. None)"
| "client_call (Suc n) st sink c msg =
     (if \<not> opened c then stopP (Throw (Library_exception ''TTransportException''))
      else case find (\<lambda>s. server_port s = client_port c) (servers st) of
        None \<Rightarrow> stopP (Throw (Library_exception ''TTransportException''))
      | Some s \<Rightarrow> (case served s of
          Sink_ref \<Rightarrow> sink msg
        | Relay_ref i \<Rightarrow> RelayHandler_bench (handlers st ! i) (client_call n st sink) msg))"

section \<open>The client loop of main\<close>

text \<open>
  The environment of iteration \<open>i\<close>: the clock reading when the message is built, and the
  sink's iteration order and clock reading when it arrives.
\<close>

type_synonym round_env = "int64 \<times> iteration \<times> int64"

definition main_msg :: "int64 \<Rightarrow> timing" where
  "main_msg sent = timing_ctor\<lparr>msgid := i64 0, source := ''client'', nanosec := sent\<rparr>"

fun main_loop :: "thrift_main \<Rightarrow> (nat \<Rightarrow> round_env) \<Rightarrow> nat \<Rightarrow> nat \<Rightarrow> (sink_state, int64 list) prog" where
  "main_loop st env i 0 = returnP []"
| "main_loop st env i (Suc k) = (case env i of (sent, iter, now) \<Rightarrow>
     bindP (client_call 21 st (SinkHandler_bench iter now) (main_client st) (main_msg sent)) (\<lambda>ack.
     bindP (main_loop st env (Suc i) k) (\<lambda>acks. returnP (ack # acks))))"

definition thrift_main_run :: "(nat \<Rightarrow> round_env) \<Rightarrow> (sink_state, int) prog" where
  "thrift_main_run env =
     seqP (print (''Services initialized.'' @ endl)) (
     bindP (main_loop (main_prepare main_create) env 0 1000) (\<lambda>_. returnP 0))"

subsection \<open>Start-up order\<close>

text \<open>
  The sequence of the network actions of \<open>main\<close> before the client loop: a server listens
  when its \<open>BenchServer\<close> is built, a client connects when it is prepared.
\<close>

datatype action = Listen int | Connect int | Sleep_s nat

definition main_actions :: "action list" where
  "main_actions =
     map (\<lambda>s. Listen (server_port s)) (relays main_create) @
     [Listen (server_port (sink_server main_create)), Sleep_s 1] @
     map (\<lambda>h. Connect (client_port (relay_client h))) (handlers main_create) @
     [Sleep_s 1, Connect (client_port (main_client main_create))]"

section \<open>Lemmas on the wiring\<close>

definition thrift_net :: thrift_main where
  "thrift_net = main_prepare main_create"

lemmas net_defs = thrift_net_def main_prepare_def main_create_def servers_def kNumRelays_def
  kRelayPortStart_def BenchServer_ctor_def RelayHandler_ctor_def RelayClient_ctor_def
  RelayHandler_prepare_def RelayClient_prepare_def

definition served_at :: "nat \<Rightarrow> handler_ref" where
  "served_at i = (if i < 20 then Relay_ref i else Sink_ref)"

lemma find_server_list:
  "\<forall>i \<in> set [0..<21]. find (\<lambda>s. server_port s = 5000 + int i) (servers thrift_net) =
     Some \<lparr>server_port = 5000 + int i, served = served_at i\<rparr>"
  by code_simp

lemma find_server:
  assumes "i \<le> 20"
  shows "find (\<lambda>s. server_port s = 5000 + int i) (servers thrift_net) =
    Some \<lparr>server_port = 5000 + int i, served = served_at i\<rparr>"
proof -
  have "i \<in> set [0..<21]"
    using assms by simp
  then show ?thesis
    by (rule bspec [OF find_server_list])
qed

lemma handler_at:
  assumes "i < 20"
  shows "handlers thrift_net ! i =
    \<lparr>relay_id = int i, relay_client = \<lparr>client_port = 5001 + int i, opened = True\<rparr>\<rparr>"
proof -
  have "[0..(19::int)] ! i = int i" and "i < length [0..(19::int)]"
    using assms by (simp_all add: nth_upto)
  then show ?thesis
    by (simp add: net_defs)
qed

text \<open>From relay \<open>i\<close> on, the call takes \<open>21 - i\<close> hops and reaches the sink.\<close>

definition hop_client :: "nat \<Rightarrow> RelayClient" where
  "hop_client i = \<lparr>client_port = 5000 + int i, opened = True\<rparr>"

lemma client_call_relay:
  assumes "i < 20"
  shows "client_call (Suc n) thrift_net sink (hop_client i) m =
    client_call n thrift_net sink (hop_client (Suc i)) (relay_copy (int i) m)"
  using assms find_server [of i] handler_at [of i]
  by (simp add: hop_client_def served_at_def RelayHandler_bench_def add.commute)

lemma client_call_sink:
  "client_call (Suc n) thrift_net sink (hop_client 20) m = sink m"
  using find_server [of 20] by (simp add: hop_client_def served_at_def)

lemma relay_copy_fields:
  "msgid (relay_copy i m) = msgid m" "nanosec (relay_copy i m) = nanosec m"
  "source (relay_copy i m) = ''relay '' @ to_string i" "isset (relay_copy i m) = timing_isset_ctor"
  by (simp_all add: relay_copy_def timing_ctor_def)

interpretation thrift_chain: rpc_chain "\<lambda>n i. client_call n thrift_net sink (hop_client i)" sink
    "\<lambda>i. relay_copy (int i)" "\<lambda>i m r. r" 20 for sink :: "timing \<Rightarrow> ('w, int64) prog"
proof
  show "client_call 0 thrift_net sink (hop_client i) m w = None" for i m w
    by simp
  show "client_call (Suc n) thrift_net sink (hop_client i) m =
      bindP (client_call n thrift_net sink (hop_client (Suc i)) (relay_copy (int i) m)) returnP"
    if "i < 20" for i n m
    using that by (simp only: client_call_relay bind_returnP)
  show "client_call (Suc n) thrift_net sink (hop_client 20) m = sink m" for n m
    by (rule client_call_sink)
qed

text \<open>What the sink gets is the last relay's copy: only the source has changed.\<close>

lemma copies_relay_copy: "copies (\<lambda>i. relay_copy (int i)) i (Suc k) m = relay_copy (int (i + k)) m"
proof (induction k arbitrary: i m)
  case 0
  then show ?case by simp
next
  case (Suc k)
  have "copies (\<lambda>i. relay_copy (int i)) i (Suc (Suc k)) m =
      copies (\<lambda>i. relay_copy (int i)) (Suc i) (Suc k) (relay_copy (int i) m)"
    by simp
  also have "\<dots> = relay_copy (int (Suc i + k)) (relay_copy (int i) m)"
    by (rule Suc.IH)
  also have "\<dots> = relay_copy (int (i + Suc k)) m"
    by (simp add: relay_copy_def timing_ctor_def)
  finally show ?case .
qed

lemma answers_thrift [simp]: "answers copy (\<lambda>i m r. r) i k m r = r"
  by (induction k arbitrary: i m) auto

lemma main_client_hop: "main_client thrift_net = hop_client 0"
  by (simp add: net_defs hop_client_def)

lemma client_call_hops:
  "client_call n thrift_net sink (main_client thrift_net) m w =
     (if 20 < n then sink (relay_copy 19 m) w else None)"
  using thrift_chain.call_hops [of n sink m w] copies_relay_copy [of 0 19 m]
  by (simp add: main_client_hop eval_nat_numeral)

lemma client_call_main:
  "client_call 21 thrift_net sink (main_client thrift_net) m = sink (relay_copy 19 m)"
  by (simp add: fun_eq_iff client_call_hops del: client_call.simps)

text \<open>The client loop is the sink fed with what the last relay sends on.\<close>

definition main_arrival :: "(nat \<Rightarrow> round_env) \<Rightarrow> nat \<Rightarrow> timing arrival" where
  "main_arrival env i = (case env i of (sent, iter, now) \<Rightarrow> (iter, now, relay_copy 19 (main_msg sent)))"

lemma main_loop_feed:
  "main_loop thrift_net env i k = feed SinkHandler_bench (map (main_arrival env) [i..<i + k])"
proof (induction k arbitrary: i)
  case 0
  then show ?case by simp
next
  case (Suc k)
  have "[i..<i + Suc k] = i # [Suc i..<Suc i + k]"
    by (simp add: upt_rec)
  with Suc show ?case
    by (simp add: main_arrival_def client_call_main split: prod.split)
qed


section \<open>Properties\<close>

text \<open>
  C8: with the servers and clients that \<open>main\<close> creates and prepares, a call of the client
  is answered by the sink after exactly \<open>kNumRelays + 1\<close> hops, the number the sink divides
  by: with fewer hops there is no answer, with as many the sink is called with the client's
  message id and time stamp and the last relay's name, and its result is the client's.
\<close>

theorem thrift_call_hops:
  "client_call n thrift_net sink (main_client thrift_net) m w =
     (if kNumRelays + 1 \<le> int n
      then sink \<lparr>msgid = msgid m, nanosec = nanosec m, source = ''relay 19'',
             isset = timing_isset_ctor\<rparr> w
      else None)"
proof -
  have "to_string 19 = ''19''"
    by (simp add: show_digits)
  then have "relay_copy 19 m = \<lparr>msgid = msgid m, nanosec = nanosec m, source = ''relay 19'',
      isset = timing_isset_ctor\<rparr>"
    by (simp add: relay_copy_def timing_ctor_def)
  then show ?thesis
    by (auto simp: client_call_hops kNumRelays_def)
qed

text \<open>
  \<open>print_stats\<close> on every state: without samples it indexes an empty vector (undefined
  behaviour); otherwise it reports the samples of rank n/2 and 9n/10 of the sorted data, in
  whole microseconds, whatever the iteration order of the multiset.
\<close>

theorem SinkHandler_print_stats_spec:
  assumes "enumerates iter" and "size (sink_data s) < 2 ^ 27"
  shows "SinkHandler_print_stats iter s =
    (if sink_data s = {#} then Some (Inl (Undef Index_out_of_range), s)
     else Some (Inr (), s\<lparr>cout := cout s @ stats_report (sink_data s)\<rparr>))"
proof (cases "sink_data s = {#}")
  case True
  then show ?thesis
    using assms(1) by (simp add: SinkHandler_print_stats_def prog_defs sort_iter)
next
  case False
  with assms show ?thesis
    by (simp add: SinkHandler_print_stats_report)
qed

theorem SinkHandler_print_stats_spec_witness:
  "SinkHandler_print_stats sorted_list_of_multiset \<lparr>sink_data = {#i64 5000#}, cout = []\<rparr> =
    Some (Inr (), \<lparr>sink_data = {#i64 5000#}, cout = stats_report {#i64 5000#}\<rparr>)"
  using SinkHandler_print_stats_spec [OF enumerates_sorted_list,
      of "\<lparr>sink_data = {#i64 5000#}, cout = []\<rparr>"]
  by simp

text \<open>
  C28: the sink's callback on every branch: a latency that does not fit is undefined
  behaviour and records nothing; otherwise the sample is stored and its line written, and
  the message id is the answer below a thousand samples, the report and \<open>exit(0)\<close> the end
  from the thousandth on.
\<close>

theorem SinkHandler_bench_spec:
  assumes "enumerates iter" and "size (sink_data s) < 2 ^ 26"
  shows "SinkHandler_bench iter now m s =
    (if \<not> in_i64 (ival now - ival (nanosec m)) then Some (Inl (Undef Signed_overflow), s)
     else let x = i64 ((ival now - ival (nanosec m)) sdiv 21);
              M = add_mset x (sink_data s);
              t = cout s @ ''nano seconds per hop: '' @ to_string (ival x) @ endl
          in if size M < 1000 then Some (Inr (msgid m), \<lparr>sink_data = M, cout = t\<rparr>)
             else Some (Inl (Exit 0), \<lparr>sink_data = M, cout = t @ stats_report M\<rparr>))"
  using assms
  by (simp add: SinkHandler_bench_cases thrift_hops sink_outcome_def per_hop_eq latency_line_def
      Let_def)

theorem SinkHandler_bench_spec_witness:
  "SinkHandler_bench sorted_list_of_multiset (i64 2100) (main_msg (i64 0)) empty_sink =
    Some (Inr (i64 0), \<lparr>sink_data = {#i64 100#}, cout = ''nano seconds per hop: 100'' @ endl\<rparr>)"
proof -
  have "to_string 100 = ''100''"
    by (simp add: show_digits)
  moreover have "ival (i64 2100) = 2100" "ival (i64 100) = 100" "(2100::int) sdiv 21 = 100"
    by (simp_all add: ival_i64 in_i64_def signed_divide_int_def)
  ultimately show ?thesis
    using SinkHandler_bench_spec [OF enumerates_sorted_list,
        of empty_sink "i64 2100" "main_msg (i64 0)"]
    by (simp add: empty_sink_def main_msg_def timing_ctor_def Let_def in_i64_def)
qed

text \<open>The latency of iteration \<open>i\<close>, and a clock that starts at 0 and does not go back.\<close>

definition round_latency :: "(nat \<Rightarrow> round_env) \<Rightarrow> nat \<Rightarrow> int64" where
  "round_latency env i = (case env i of (sent, iter, now) \<Rightarrow>
     i64 ((ival now - ival sent) div (kNumRelays + 1)))"

definition clock_ok :: "round_env \<Rightarrow> bool" where
  "clock_ok r = (case r of (sent, iter, now) \<Rightarrow>
     enumerates iter \<and> 0 \<le> ival sent \<and> ival sent \<le> ival now)"

lemma main_latencies:
  assumes "\<forall>i<k. clock_ok (env i)"
  shows "latencies (i64 21) nanosec (map (main_arrival env) [0..<k]) (map (round_latency env) [0..<k])"
proof -
  have "per_hop (i64 21) now sent = Inr (i64 ((ival now - ival sent) div 21))"
    if "0 \<le> ival sent" "ival sent \<le> ival now" for now sent
    using per_hop_monotone_clock [of "i64 21" sent now] that thrift_hops
    by (metis i64_ival zero_less_numeral)
  with assms show ?thesis
    by (auto simp: latencies_def list_all2_conv_all_nth main_arrival_def round_latency_def
        clock_ok_def relay_copy_fields main_msg_def timing_ctor_def kNumRelays_def split: prod.splits)
qed

text \<open>
  C12: \<open>main\<close> never returns from its client loop: with a clock that does not go back, the
  thousandth call ends the process with code 0, after the start-up line, one line per message and the report
  of the thousand per-hop latencies.
\<close>

theorem thrift_main_exits:
  assumes "\<forall>i<1000. clock_ok (env i)"
  shows "thrift_main_run env empty_sink = Some (Inl (Exit 0),
    \<lparr>sink_data = mset (map (round_latency env) [0..<1000]),
     cout = ''Services initialized.'' @ endl @
       concat (map latency_line (map (round_latency env) [0..<1000])) @
       stats_report (mset (map (round_latency env) [0..<1000]))\<rparr>)"
proof -
  let ?as = "map (main_arrival env) [0..<1000]" and ?xs = "map (round_latency env) [0..<1000]"
  let ?s = "\<lparr>sink_data = {#}, cout = ''Services initialized.'' @ endl\<rparr>"
  have "feed SinkHandler_bench (?as @ []) ?s = Some (Inl (Exit 0),
      \<lparr>sink_data = sink_data ?s + mset ?xs,
       cout = cout ?s @ concat (map latency_line ?xs) @ stats_report (sink_data ?s + mset ?xs)\<rparr>)"
    by (rule thrift_sink.feed_exit [OF main_latencies [OF assms]]) simp_all
  then show ?thesis
    unfolding thrift_main_run_def main_loop_feed [unfolded thrift_net_def]
    by (simp add: bindP_def seqP_def print_def modifyP_def empty_sink_def)
qed

theorem thrift_main_exits_witness:
  "\<exists>s. thrift_main_run (\<lambda>i. (i64 0, sorted_list_of_multiset, i64 42)) empty_sink = Some (Inl (Exit 0), s)"
proof -
  have "\<forall>i<1000::nat. clock_ok (i64 0, sorted_list_of_multiset, i64 42)"
    by (simp add: clock_ok_def enumerates_sorted_list ival_i64 in_i64_def)
  from thrift_main_exits [OF this] show ?thesis
    by blast
qed

text \<open>
  A start-up order is fine when a client only connects to a port that is listened on, no port
  is listened on or connected to twice, and in the end every listened port is connected to.
\<close>

fun startup_ok :: "int list \<Rightarrow> int list \<Rightarrow> action list \<Rightarrow> bool" where
  "startup_ok listening connected [] \<longleftrightarrow> set listening = set connected"
| "startup_ok listening connected (Listen p # as) \<longleftrightarrow>
     p \<notin> set listening \<and> startup_ok (p # listening) connected as"
| "startup_ok listening connected (Connect p # as) \<longleftrightarrow>
     p \<in> set listening \<and> p \<notin> set connected \<and> startup_ok listening (p # connected) as"
| "startup_ok listening connected (Sleep_s n # as) \<longleftrightarrow> startup_ok listening connected as"

text \<open>
  The start-up order of \<open>main\<close>: every client connects to a port on which a server has
  listened before, no port is listened on twice, and no port is connected to twice
  (a \<open>TSimpleServer\<close> serves one connection at a time).
\<close>

theorem main_startup_order: "startup_ok [] [] main_actions"
  by code_simp

end
