(* ===== verification/Thrift_Chain.thy ===== *)
theory Thrift_Chain
  imports Thrift_Bench Thrift_Rpc
begin

text \<open>
  The two halves of the thrift benchmark put together: the handlers and the wiring of
  \<open>bench.cpp\<close>, with every hop a remote call through the generated client and processor of
  \<open>gen-cpp\<close>. What a call over the wire does is computed from the two sides' code, and the
  direct call of \<open>Thrift_Bench\<close> is shown to be the same.
\<close>

section \<open>A handler that does not answer\<close>

text \<open>
  \<open>process_bench\<close> around a handler that ends the process (or has undefined behaviour), and
  around one that does not return: the stop goes through, and nothing is replied.
\<close>

definition blocks :: "('w \<Rightarrow> 'v) \<Rightarrow> 'v \<Rightarrow> ('w, 'a) prog \<Rightarrow> bool" where
  "blocks view v m \<longleftrightarrow> (\<forall>w. view w = v \<longrightarrow> m w = None)"

lemma blocks_bind: "blocks view v m \<Longrightarrow> blocks view v (bindP m f)"
  by (simp add: blocks_def bindP_def)

lemma blocks_bind_next: "yields view v m (Inr x) v' \<Longrightarrow> blocks view v' (f x) \<Longrightarrow> blocks view v (bindP m f)"
  unfolding blocks_def yields_def by (metis bindP_SomeI)

lemma blocks_seq_next: "yields view v m (Inr x) v' \<Longrightarrow> blocks view v' n \<Longrightarrow> blocks view v (seqP m n)"
  unfolding seqP_def by (rule blocks_bind_next)

lemma blocks_catch: "blocks view v m \<Longrightarrow> blocks view v (catchP m h)"
  by (simp add: blocks_def catchP_def)

lemma blocks_finally: "blocks view v m \<Longrightarrow> blocks view v (finallyP m d)"
  by (simp add: blocks_def finallyP_def)

lemma yields_catch_stop:
  assumes "yields view v m (Inl e) v'" and "\<And>x. e \<noteq> Throw x"
  shows "yields view v (catchP m h) (Inl e) v'"
  using assms unfolding yields_def catchP_def by (cases e) fastforce+

lemma yields_finally_stop:
  assumes "yields view v m (Inl e) v'" and "\<And>x. e \<noteq> Throw x"
  shows "yields view v (finallyP m d) (Inl e) v'"
  using assms unfolding yields_def finallyP_def by (cases e) fastforce+

context connection
begin

lemma process_bench_stops:
  assumes obs: "observes view this ev" and v: "incoming v = encode (VStruct fs) @ Message_end # ts"
      "levels (VStruct fs) \<le> in_depth v"
    and handler: "yields view (v\<lparr>incoming := ts, app := before_call ev (app v)\<rparr>)
      (iface this (args_arg (fold args_field fs Bench_bench_args_ctor))) (Inl e) v'"
    and e: "\<And>x. e \<noteq> Throw x"
  shows "yields view v (process_bench what this q inp outp c) (Inl e) v'"
proof (rule before_handler [OF obs v, of c], goal_cases)
  case front: (1 ctx n v1 v2 v3 v4)
  show ?case
    unfolding process_bench_def
    by (rule yields_bind [OF front(1)], rule yields_finally_stop [OF _ e], rule yields_seq [OF front(2)],
        rule yields_bind [OF front(3)], unfold split, rule yields_seq [OF front(4)], rule yields_bind [OF front(5)],
        rule yields_seq [OF front(6)], rule yields_bind_stop, rule yields_catch_stop [OF yields_bind_stop [OF handler] e])
qed

lemma process_bench_blocks:
  assumes obs: "observes view this ev" and v: "incoming v = encode (VStruct fs) @ Message_end # ts"
      "levels (VStruct fs) \<le> in_depth v"
    and handler: "blocks view (v\<lparr>incoming := ts, app := before_call ev (app v)\<rparr>)
      (iface this (args_arg (fold args_field fs Bench_bench_args_ctor)))"
  shows "blocks view v (process_bench what this q inp outp c)"
proof (rule before_handler [OF obs v, of c], goal_cases)
  case front: (1 ctx n v1 v2 v3 v4)
  show ?case
    unfolding process_bench_def
    by (rule blocks_bind_next [OF front(1)], rule blocks_finally, rule blocks_seq_next [OF front(2)],
        rule blocks_bind_next [OF front(3)], unfold split, rule blocks_seq_next [OF front(4)],
        rule blocks_bind_next [OF front(5)], rule blocks_seq_next [OF front(6)], intro blocks_bind blocks_catch handler)
qed

end

section \<open>A remote call\<close>

text \<open>
  What the library contributes to a call: the two protocol objects and the server's
  \<open>process\<close>, which reads a message's header and hands it to the processor's \<open>dispatchCall\<close>.
  A connection carries the bytes one side flushes to the other, so that a call is: the client
  sends on a connection with nothing on it, the server works on what was flushed, and the
  client reads what the server flushed. Both sides have the library's default recursion limit.
\<close>

record 'a network =
  client_prot :: "unit port tprotocol"
  server_prot :: "'a port tprotocol"
  server_process :: "(string \<Rightarrow> int32 \<Rightarrow> ('a port, bool) prog) \<Rightarrow> ('a port, bool) prog"
  exn_what :: "exn \<Rightarrow> string"

definition fresh_port :: "token list \<Rightarrow> 'a \<Rightarrow> 'a port" where
  "fresh_port ts a = \<lparr>incoming = ts, unflushed = [], flushed = [], in_depth = 64, out_depth = 64, app = a\<rparr>"

lemma fresh_port_app [simp]: "app (fresh_port ts a) = a"
  by (simp add: fresh_port_def)

text \<open>A handler works on the application's part of a server's world.\<close>

definition on_app :: "('a, 'r) prog \<Rightarrow> ('a port, 'r) prog" where
  "on_app prog v = (case prog (app v) of None \<Rightarrow> None | Some (r, a) \<Rightarrow> Some (r, v\<lparr>app := a\<rparr>))"

text \<open>
  The client's end of the call; an exception that escapes \<open>dispatchCall\<close> stays in the server's
  thread, and the client reads what has been flushed. An exit ends the process.
\<close>

definition await_reply :: "'a network \<Rightarrow> token list \<Rightarrow> ('a, int64) prog" where
  "await_reply net reply = (\<lambda>a.
     case BenchClient_recv_bench (BenchClient_ctor (client_prot net)) (fresh_port reply ()) of
       None \<Rightarrow> None
     | Some (r, v) \<Rightarrow> Some (r, a))"

definition remote_bench :: "'a network \<Rightarrow> 'a BenchIf \<Rightarrow> 'a BenchIf" where
  "remote_bench net handler msg = (\<lambda>a.
     let p = BenchProcessor_ctor (\<lambda>m. on_app (handler m)) in
     case BenchClient_send_bench (BenchClient_ctor (client_prot net)) msg (fresh_port [] ()) of
       None \<Rightarrow> None
     | Some (Inl e, v) \<Rightarrow> Some (Inl e, a)
     | Some (Inr sent, v) \<Rightarrow>
        (case server_process net
             (\<lambda>fname seqid. dispatchCall (exn_what net) p (server_prot net) (server_prot net) fname seqid 0)
             (fresh_port (flushed v) a) of
           None \<Rightarrow> None
         | Some (Inl (Throw e), v') \<Rightarrow> await_reply net (flushed v') (app v')
         | Some (Inl e, v') \<Rightarrow> Some (Inl e, app v')
         | Some (Inr ok, v') \<Rightarrow> await_reply net (flushed v') (app v')))"

text \<open>
  The calls of \<open>bench.cpp\<close> over the wire: as \<open>client_call\<close>, with \<open>RelayClient::bench\<close> as the
  generated client's call of the processor that serves the port.
\<close>

fun wire_call :: "'a network \<Rightarrow> nat \<Rightarrow> thrift_main \<Rightarrow> 'a BenchIf \<Rightarrow> RelayClient \<Rightarrow> 'a BenchIf" where
  "wire_call net 0 st sink c msg = (\<lambda>w. None)"
| "wire_call net (Suc n) st sink c msg =
     (if \<not> opened c then stopP (Throw (Library_exception ''TTransportException''))
      else case find (\<lambda>s. server_port s = client_port c) (servers st) of
        None \<Rightarrow> stopP (Throw (Library_exception ''TTransportException''))
      | Some s \<Rightarrow> remote_bench net (case served s of
          Sink_ref \<Rightarrow> sink
        | Relay_ref i \<Rightarrow> RelayHandler_bench (handlers st ! i) (wire_call net n st sink)) msg)"

text \<open>
  What a remote call makes of the handler's outcome: an exception reaches the caller as a
  \<open>TApplicationException\<close> with its text, everything else as it is.
\<close>

fun remote_outcome :: "(exn \<Rightarrow> string) \<Rightarrow> ((stop + int64) \<times> 'a) option \<Rightarrow> ((stop + int64) \<times> 'a) option" where
  "remote_outcome what (Some (Inl (Throw e), a)) = Some (Inl (Throw (TApplicationException UNKNOWN (what e))), a)"
| "remote_outcome what out = out"

lemma remote_outcome_None [simp]: "(remote_outcome what ^^ k) None = None"
  by (induction k) simp_all

text \<open>The laws of the library's part.\<close>

locale thrift_network =
  fixes net :: "'a network" and cost cost' :: "token \<Rightarrow> u32"
  assumes client_side: "connection (client_prot net) (client_prot net) (\<lambda>w. w) cost"
    and server_side: "connection (server_prot net) (server_prot net) (\<lambda>w. w) cost'"
    and process: "incoming v = Message fname T_CALL q # ts \<Longrightarrow>
      server_process net d v = d fname q (v\<lparr>incoming := ts\<rparr>)"
begin

definition call_tokens :: "timing \<Rightarrow> token list" where
  "call_tokens m = encode (args_value m) @ [Message_end]"

lemma send: "BenchClient_send_bench (BenchClient_ctor (client_prot net)) m (fresh_port [] ()) =
    Some (Inr (), (fresh_port [] ())\<lparr>flushed := Message ''bench'' T_CALL 0 # call_tokens m\<rparr>)"
  using connection.send_bench_yields [OF client_side, of "fresh_port [] ()" m]
  by (simp add: yields_def BenchClient_ctor_def fresh_port_def call_tokens_def)

lemma serve:
  "server_process net (\<lambda>fname seqid. dispatchCall what p sp sp fname seqid 0) (fresh_port (Message ''bench'' T_CALL 0 # ts) a) =
     dispatchCall what p sp sp ''bench'' 0 0 (fresh_port ts a)"
  using process [of "fresh_port (Message ''bench'' T_CALL 0 # ts) a"] by (simp add: fresh_port_def)

abbreviation dispatch :: "'a BenchIf \<Rightarrow> timing \<Rightarrow> 'a \<Rightarrow> ((stop + bool) \<times> 'a port) option" where
  "dispatch h m a \<equiv> dispatchCall (exn_what net) (BenchProcessor_ctor (\<lambda>m. on_app (h m))) (server_prot net) (server_prot net)
     ''bench'' 0 0 (fresh_port (call_tokens m) a)"

lemma processor_simps:
  "iface (BenchProcessor_ctor h) = h" "map_of (processMap (BenchProcessor_ctor h)) ''bench'' = Some Process_bench"
  by (simp_all add: BenchProcessor_ctor_def)

text \<open>The server's side, for each way the handler can end.\<close>

lemma dispatch_result:
  assumes "h (timing_all_set m) a = Some (call_result res, a')"
  shows "dispatch h m a = Some (Inr True, (fresh_port [] a')\<lparr>flushed := reply_body (exn_what net) res 0\<rparr>)"
proof -
  obtain fs where fs: "args_value m = VStruct fs"
    by (simp add: args_value_def)
  have "serves (\<lambda>w. w) (\<lambda>m. on_app (h m)) (timing_all_set m) (before_call (\<lambda>e a. a) a) res a'"
    using assms by (cases res) (simp_all add: serves_def yields_def on_app_def before_call_def)
  then show ?thesis
    using connection.dispatchCall_bench [OF server_side observes_ctor, of "fresh_port (call_tokens m) a" fs "[]"]
      fold_args_value [OF fs] levels_values(2) [of m]
    by (cases res) (simp_all add: processor_simps yields_def call_tokens_def fs fresh_port_def)
qed

lemma dispatch_stop:
  assumes "h (timing_all_set m) a = Some (Inl e, a')" and "\<And>x. e \<noteq> Throw x"
  shows "dispatch h m a = Some (Inl e, fresh_port [] a')"
proof -
  obtain fs where fs: "args_value m = VStruct fs"
    by (simp add: args_value_def)
  have "yields (\<lambda>w. w) (fresh_port (call_tokens m) a)
      (process_bench (exn_what net) (BenchProcessor_ctor (\<lambda>m. on_app (h m))) 0 (server_prot net) (server_prot net) 0)
      (Inl e) (fresh_port [] a')"
    by (rule connection.process_bench_stops [OF server_side observes_ctor, where fs = fs and ts = "[]"])
      (use assms fold_args_value [OF fs] levels_values(2) [of m] in
        \<open>simp_all add: fs call_tokens_def fresh_port_def processor_simps yields_def on_app_def before_call_def\<close>)
  then show ?thesis
    unfolding dispatchCall_def processor_simps option.case process_function.case
    by (simp add: yields_def seqP_def bindP_def)
qed

lemma dispatch_blocks:
  assumes "h (timing_all_set m) a = None"
  shows "dispatch h m a = None"
proof -
  obtain fs where fs: "args_value m = VStruct fs"
    by (simp add: args_value_def)
  have "blocks (\<lambda>w. w) (fresh_port (call_tokens m) a)
      (process_bench (exn_what net) (BenchProcessor_ctor (\<lambda>m. on_app (h m))) 0 (server_prot net) (server_prot net) 0)"
    by (rule connection.process_bench_blocks [OF server_side observes_ctor, where fs = fs and ts = "[]"])
      (use assms fold_args_value [OF fs] levels_values(2) [of m] in
        \<open>simp_all add: fs call_tokens_def fresh_port_def processor_simps blocks_def on_app_def before_call_def\<close>)
  then show ?thesis
    unfolding dispatchCall_def processor_simps option.case process_function.case
    by (simp add: blocks_def seqP_def bindP_def)
qed

lemma await: "await_reply net (reply_body (exn_what net) res 0) a = remote_outcome (exn_what net) (Some (call_result res, a))"
proof (cases res)
  case (Inl e)
  then show ?thesis
    using connection.recv_bench_exception [OF client_side, of "fresh_port (reply_body (exn_what net) res 0) ()" "''bench''" 0]
    by (simp add: await_reply_def yields_def BenchClient_ctor_def fresh_port_def)
next
  case (Inr r)
  have "reply_outcome [(0, VI64 r)] = Inr r"
    by (simp add: reply_outcome_def)
  with Inr show ?thesis
    using connection.recv_bench_reply [OF client_side, of "fresh_port (reply_body (exn_what net) res 0) ()" 0 "[(0, VI64 r)]" "[]"]
    by (simp add: await_reply_def yields_def BenchClient_ctor_def fresh_port_def result_value_def)
qed

lemma remote_bench_eq: "remote_bench net h m a = remote_outcome (exn_what net) (h (timing_all_set m) a)"
proof (cases "h (timing_all_set m) a")
  case None
  then show ?thesis
    by (simp add: remote_bench_def send serve dispatch_blocks)
next
  case (Some out)
  obtain r a' where out: "out = (r, a')"
    by (cases out)
  show ?thesis
  proof (cases "\<exists>res. r = call_result res")
    case True
    then obtain res where "r = call_result res" ..
    with Some out show ?thesis
      by (simp add: remote_bench_def send serve dispatch_result await)
  next
    case False
    then obtain e where e: "r = Inl e" "\<forall>x. e \<noteq> Throw x"
      by (metis call_result.simps old.sum.exhaust)
    with Some out show ?thesis
      by (cases e) (simp_all add: remote_bench_def send serve dispatch_stop)
  qed
qed

text \<open>The chain: every hop rethrows, and the sink gets the last copy with all flags set.\<close>

lemma wire_call_hop:
  assumes "i \<le> 20"
  shows "wire_call net n thrift_net sink (hop_client i) m a =
    (remote_outcome (exn_what net) ^^ (21 - i)) (client_call n thrift_net (\<lambda>m. sink (timing_all_set m)) (hop_client i) m a)"
  using assms
proof (induction n arbitrary: i m a)
  case 0
  show ?case by (simp del: funpow.simps)
next
  case (Suc n)
  have server: "find (\<lambda>s. server_port s = client_port (hop_client i)) (servers thrift_net) =
      Some \<lparr>server_port = 5000 + int i, served = served_at i\<rparr>"
    using find_server [OF Suc.prems] by (simp add: hop_client_def)
  show ?case
  proof (cases "i < 20")
    case True
    have k: "21 - i = Suc (20 - i)"
      using True by simp
    have copy: "relay_copy (int i) (timing_all_set m) = relay_copy (int i) m"
      by (simp add: relay_copy_def timing_all_set_def)
    have next_hop: "RelayHandler_bench (handlers thrift_net ! i) f m' = f (hop_client (Suc i)) (relay_copy (int i) m')"
      for f :: "RelayClient \<Rightarrow> timing \<Rightarrow> ('a, int64) prog" and m'
      using handler_at [OF True] by (simp add: RelayHandler_bench_def hop_client_def add.commute)
    have "wire_call net (Suc n) thrift_net sink (hop_client i) m a =
        remote_outcome (exn_what net) (wire_call net n thrift_net sink (hop_client (Suc i)) (relay_copy (int i) m) a)"
      using True by (simp add: server served_at_def remote_bench_eq next_hop copy) (simp add: hop_client_def)
    also have "\<dots> = remote_outcome (exn_what net) ((remote_outcome (exn_what net) ^^ (20 - i))
        (client_call n thrift_net (\<lambda>m. sink (timing_all_set m)) (hop_client (Suc i)) (relay_copy (int i) m) a))"
      using Suc.IH [of "Suc i"] True by simp
    also have "\<dots> = (remote_outcome (exn_what net) ^^ (21 - i))
        (client_call n thrift_net (\<lambda>m. sink (timing_all_set m)) (hop_client (Suc i)) (relay_copy (int i) m) a)"
      by (simp only: k funpow.simps o_apply)
    finally show ?thesis
      using True by (simp only: client_call_relay)
  next
    case False
    with Suc.prems have i: "i = 20"
      by simp
    have "wire_call net (Suc n) thrift_net sink (hop_client 20) m a = remote_outcome (exn_what net) (sink (timing_all_set m) a)"
      using server by (simp add: i served_at_def remote_bench_eq) (simp add: hop_client_def)
    then show ?thesis
      by (simp add: i client_call_sink del: client_call.simps wire_call.simps)
  qed
qed

end

section \<open>The chain over the wire\<close>

text \<open>
  C2: the whole chain over the wire: with the servers and clients of \<open>main\<close> and the generated
  client and processor on every hop, over any connections that keep the library's laws, a
  call of the client takes \<open>kNumRelays + 1\<close> hops and runs the sink once, with the client's id
  and time stamp, the last relay's name and all flags set. The sink's answer, its exit or its
  undefined behaviour is the call's; an exception comes back wrapped once per hop.
\<close>

theorem wire_chain:
  assumes "thrift_network net cost cost'"
  shows "wire_call net n thrift_net sink (main_client thrift_net) m a =
    (if kNumRelays + 1 \<le> int n
     then (remote_outcome (exn_what net) ^^ nat (kNumRelays + 1))
       (sink \<lparr>msgid = msgid m, nanosec = nanosec m, source = ''relay 19'',
          isset = \<lparr>isset_msgid = True, isset_nanosec = True, isset_source = True\<rparr>\<rparr> a)
     else None)"
proof -
  have "to_string 19 = ''19''"
    by (simp add: show_digits)
  then have copy: "timing_all_set (relay_copy 19 m) = \<lparr>msgid = msgid m, nanosec = nanosec m, source = ''relay 19'',
      isset = \<lparr>isset_msgid = True, isset_nanosec = True, isset_source = True\<rparr>\<rparr>"
    by (simp add: timing_all_set_def relay_copy_def timing_ctor_def)
  show ?thesis
    using thrift_network.wire_call_hop [OF assms, of 0 n sink m a]
      client_call_hops [of n "\<lambda>m. sink (timing_all_set m)" m a] copy
    by (auto simp: main_client_hop kNumRelays_def simp del: funpow.simps)
qed

text \<open>The witness: streams in memory, and a server that reads the header and dispatches.\<close>

definition memory_network :: "'a network" where
  "memory_network = \<lparr>client_prot = memory_protocol unit_cost, server_prot = memory_protocol unit_cost,
     server_process = (\<lambda>dispatch. bindP (readMessageBegin (memory_protocol unit_cost)) (\<lambda>(fname, mtype, seqid).
       if mtype = T_CALL \<or> mtype = T_ONEWAY then dispatch fname seqid else returnP False)),
     exn_what = (\<lambda>e. ''what'')\<rparr>"

interpretation memory_net: thrift_network memory_network unit_cost unit_cost
proof (rule thrift_network.intro)
  show "server_process memory_network d v = d fname q (v\<lparr>incoming := ts\<rparr>)"
    if "incoming v = Message fname T_CALL q # ts" for d :: "string \<Rightarrow> int32 \<Rightarrow> ('a port, bool) prog" and v fname q ts
    using that by (simp add: memory_network_def memory_protocol_def take_token_def bindP_def)
qed (simp_all add: memory_network_def memory_connection)

theorem wire_chain_witness:
  "wire_call memory_network 21 thrift_net (\<lambda>m. stopP (Throw (Library_exception ''sink down''))) (main_client thrift_net) timing_ctor ()
     = Some (Inl (Throw (TApplicationException UNKNOWN ''what'')), ())"
proof -
  have "(remote_outcome (\<lambda>e. ''what'') ^^ Suc k) (Some (Inl (Throw e), ())) = Some (Inl (Throw (TApplicationException UNKNOWN ''what'')), ())"
    for k e
    by (induction k) simp_all
  from this [of 20] show ?thesis
    using wire_chain [OF memory_net.thrift_network_axioms, of 21 "\<lambda>m. stopP (Throw (Library_exception ''sink down''))" timing_ctor "()"]
    by (simp add: kNumRelays_def stopP_def memory_network_def del: funpow.simps)
qed

text \<open>The sink of the benchmark neither looks at the flags nor throws.\<close>

lemma SinkHandler_bench_flags: "SinkHandler_bench iter now (timing_all_set m) = SinkHandler_bench iter now m"
  by (simp add: SinkHandler_bench_def timing_all_set_def)

lemma SinkHandler_bench_no_throw: "SinkHandler_bench iter now m s \<noteq> Some (Inl (Throw e), s')"
  by (auto simp: SinkHandler_bench_def SinkHandler_print_stats_def prog_defs Let_def insert_sample_def print_def
      sub_i64_def div_i64_def check_i64_def vector_at_def split: sum.splits if_splits)

text \<open>
  C17: for the benchmark's sink the calls over the wire and the direct calls of
  \<open>Thrift_Bench\<close> are the same program: the same answers, the same exits and the same
  samples and output, for every message, state, clock reading and iteration order. What is
  shown of \<open>main\<close> with direct calls holds of it with the generated code in between.
\<close>

theorem wire_call_is_client_call:
  assumes "thrift_network net cost cost'"
  shows "wire_call net n thrift_net (SinkHandler_bench iter now) (main_client thrift_net) m =
    client_call n thrift_net (SinkHandler_bench iter now) (main_client thrift_net) m"
proof
  fix s
  let ?direct = "client_call n thrift_net (SinkHandler_bench iter now) (main_client thrift_net) m s"
  have "remote_outcome (exn_what net) ?direct = ?direct"
    using SinkHandler_bench_no_throw
    by (cases "(exn_what net, ?direct)" rule: remote_outcome.cases) (auto simp: client_call_hops split: if_splits)
  then have "(remote_outcome (exn_what net) ^^ k) ?direct = ?direct" for k :: nat
    by (induction k) simp_all
  then show "wire_call net n thrift_net (SinkHandler_bench iter now) (main_client thrift_net) m s = ?direct"
    using thrift_network.wire_call_hop [OF assms, of 0 n "SinkHandler_bench iter now" m s]
    by (simp add: main_client_hop SinkHandler_bench_flags del: funpow.simps)
qed

theorem wire_call_is_client_call_witness:
  "wire_call memory_network 21 thrift_net (SinkHandler_bench sorted_list_of_multiset (i64 42)) (main_client thrift_net) (main_msg (i64 0)) =
     client_call 21 thrift_net (SinkHandler_bench sorted_list_of_multiset (i64 42)) (main_client thrift_net) (main_msg (i64 0))"
  by (rule wire_call_is_client_call [OF memory_net.thrift_network_axioms])

end
