(* ===== verification/Thrift_Skeleton.thy ===== *)
theory Thrift_Skeleton
  imports Thrift_Chain
begin

text \<open>
  The server skeleton the Thrift compiler generated (\<open>Bench_server.skeleton.cpp\<close>): its \<open>main\<close>
  around the stub handler \<open>BenchHandler_bench\<close> of \<open>Thrift_Rpc\<close>, and what becomes of a call.
\<close>

text \<open>
  The server object is the library's: \<open>serve port processor\<close> is \<open>TSimpleServer::serve\<close> on
  a server socket with the default transports and protocols, \<open>printf\<close> the C function.
\<close>

definition skeleton_main ::
  "(string \<Rightarrow> ('w, unit) prog) \<Rightarrow> (int \<Rightarrow> 'w BenchProcessor \<Rightarrow> ('w, unit) prog) \<Rightarrow> ('w, int) prog" where
  "skeleton_main printf serve =
     (let port = 9090;
          handler = BenchHandler_bench printf;
          processor = BenchProcessor_ctor handler
      in seqP (serve port processor) (
         returnP 0))"

text \<open>What is used of the two: text is written, and a call that arrives is dispatched before anything else happens.\<close>

definition prints :: "('w \<Rightarrow> 'a port) \<Rightarrow> (string \<Rightarrow> ('w, unit) prog) \<Rightarrow> (string \<Rightarrow> 'a \<Rightarrow> 'a) \<Rightarrow> bool" where
  "prints view printf out \<longleftrightarrow> (\<forall>t v. yields view v (printf t) (Inr ()) (v\<lparr>app := out t (app v)\<rparr>))"

definition dispatches ::
  "('w \<Rightarrow> 'a port) \<Rightarrow> (int \<Rightarrow> 'w BenchProcessor \<Rightarrow> ('w, unit) prog) \<Rightarrow> 'w tprotocol \<Rightarrow> 'w tprotocol \<Rightarrow>
     (exn \<Rightarrow> string) \<Rightarrow> nat \<Rightarrow> bool" where
  "dispatches view serve inp outp what c \<longleftrightarrow> (\<forall>port p v fname q ts v' e.
     incoming v = Message fname T_CALL q # ts \<longrightarrow> (\<forall>x. e \<noteq> Throw x) \<longrightarrow>
     yields view (v\<lparr>incoming := ts\<rparr>) (dispatchCall what p inp outp fname q c) (Inl e) v' \<longrightarrow>
     yields view v (serve port p) (Inl e) v')"

lemma BenchHandler_bench_yields:
  assumes "prints view printf out"
  shows "yields view v (BenchHandler_bench printf arg) (Inl (Undef No_return_value))
    (v\<lparr>app := out (''bench'' @ [CHR 0x0A]) (app v)\<rparr>)"
  using assms unfolding BenchHandler_bench_def prints_def by (blast intro: yields_seq)

text \<open>
  C40: the skeleton as generated cannot answer: the first well-formed call of \<open>bench\<close> that
  arrives, whatever fields its arguments have, prints the stub's line and runs off the end
  of a function that must return an \<open>int64_t\<close>, which is undefined behaviour; until then
  nothing has been replied, and \<open>main\<close> does not get to its \<open>return 0\<close>.
\<close>

theorem skeleton_undefined:
  assumes "connection inp outp view cost" and "prints view printf out" and "dispatches view serve inp outp what c"
    and "incoming v = Message ''bench'' T_CALL q # encode (VStruct fs) @ Message_end # ts"
    and "levels (VStruct fs) \<le> in_depth v"
  shows "yields view v (skeleton_main printf serve) (Inl (Undef No_return_value))
    (v\<lparr>incoming := ts, app := out (''bench'' @ [CHR 0x0A]) (app v)\<rparr>)"
proof -
  let ?p = "BenchProcessor_ctor (BenchHandler_bench printf)"
  let ?args = "v\<lparr>incoming := encode (VStruct fs) @ Message_end # ts\<rparr>"
  let ?v' = "v\<lparr>incoming := ts, app := out (''bench'' @ [CHR 0x0A]) (app v)\<rparr>"
  have "yields view ?args (process_bench what ?p q inp outp c) (Inl (Undef No_return_value)) ?v'"
    using BenchHandler_bench_yields [OF assms(2), of "v\<lparr>incoming := ts\<rparr>"] assms(5)
    by (intro connection.process_bench_stops [OF assms(1) observes_ctor, where fs = fs and ts = ts])
      (simp_all add: before_call_def BenchProcessor_ctor_def)
  then have "yields view ?args (dispatchCall what ?p inp outp ''bench'' q c) (Inl (Undef No_return_value)) ?v'"
    unfolding dispatchCall_def
    by (simp add: BenchProcessor_ctor_def yields_seq_stop)
  then have "yields view v (serve 9090 ?p) (Inl (Undef No_return_value)) ?v'"
    using assms(3,4) unfolding dispatches_def by blast
  then show ?thesis
    by (simp add: skeleton_main_def yields_seq_stop)
qed

text \<open>The witness: streams in memory, with what has been printed as the application's part.\<close>

definition memory_printf :: "string \<Rightarrow> (string port, unit) prog" where
  "memory_printf t = modifyP (\<lambda>v. v\<lparr>app := app v @ t\<rparr>)"

definition memory_serve :: "int \<Rightarrow> string port BenchProcessor \<Rightarrow> (string port, unit) prog" where
  "memory_serve port p = bindP (server_process memory_network (\<lambda>fname seqid.
     dispatchCall (\<lambda>e. []) p (memory_protocol unit_cost) (memory_protocol unit_cost) fname seqid 0)) (\<lambda>ok. returnP ())"

lemma memory_prints: "prints (\<lambda>w. w) memory_printf (\<lambda>t a. a @ t)"
  by (simp add: prints_def memory_printf_def yields_def modifyP_def)

lemma memory_dispatches:
  "dispatches (\<lambda>w. w) memory_serve (memory_protocol unit_cost) (memory_protocol unit_cost) (\<lambda>e. []) 0"
  by (auto simp: dispatches_def memory_serve_def yields_def bindP_def memory_net.process)

theorem skeleton_undefined_witness:
  "yields (\<lambda>w. w) (fresh_port (Message ''bench'' T_CALL 7 # encode (VStruct []) @ [Message_end]) '''')
     (skeleton_main memory_printf memory_serve) (Inl (Undef No_return_value)) (fresh_port [] (''bench'' @ [CHR 0x0A]))"
  using skeleton_undefined [OF memory_connection memory_prints memory_dispatches, where q = 7 and fs = "[]" and ts = "[]"
      and v = "fresh_port (Message ''bench'' T_CALL 7 # encode (VStruct []) @ [Message_end]) ''''"]
  by (simp add: fresh_port_def)

end
