(* ===== verification/Rust_Bench.thy ===== *)
theory Rust_Bench
  imports Thrift_Bench
begin

text \<open>
  The thrift benchmark in Rust (\<open>thrift-rs/src/main.rs\<close>): relay and sink handlers with their
  mutexes, the wiring of the threads, and the client loop of \<open>main\<close>. The names of \<open>main.rs\<close>
  have the prefix \<open>rs\<close> here. A call is that of \<open>timing.rs\<close>' client on a connection: it
  runs the handler behind the port.
\<close>

section \<open>Results, panics and integers\<close>

text \<open>
  What a function leaves: \<open>Ok\<close> and \<open>Err\<close> of \<open>thrift::Result\<close>, or a panic, which unwinds the
  thread. Dropping a mutex guard while unwinding poisons the mutex; \<open>lock().unwrap()\<close> on a
  poisoned mutex panics.
\<close>

datatype 'a rust = Ok 'a | Err string | Panic

text \<open>
  Subtraction of \<open>i64\<close>: on overflow it panics when the build has overflow checks and wraps
  around when it has not. \<open>u128 as i64\<close> keeps the low 64 bits.
\<close>

definition rs_sub :: "bool \<Rightarrow> int64 \<Rightarrow> int64 \<Rightarrow> int64 option" where
  "rs_sub checks a b =
     (if in_i64 (ival a - ival b) \<or> \<not> checks then Some (i64 (ival a - ival b)) else None)"

definition as_i64 :: "nat \<Rightarrow> int64" where
  "as_i64 n = i64 (int n)"

definition vec_index :: "'a list \<Rightarrow> nat \<Rightarrow> 'a option" where
  "vec_index xs i = (if i < length xs then Some (xs ! i) else None)"

section \<open>The program\<close>

definition NUM_RELAYS :: int where "NUM_RELAYS = 20"
definition RELAY_PORT_START :: int where "RELAY_PORT_START = 5000"
definition NUM_MESSAGES :: nat where "NUM_MESSAGES = 1000"

record RsTiming =
  rs_msgid :: int64
  rs_nanosec :: int64
  rs_source :: string

text \<open>The sink: the vector behind its mutex, whether that is poisoned, and what has been printed.\<close>

record RsSink =
  latency_vec :: "int64 list"
  vec_poisoned :: bool
  rs_out :: string

text \<open>The report on a full vector, already sorted; \<open>None\<close> is an index out of range, which panics.\<close>

definition rs_report :: "int64 list \<Rightarrow> string option" where
  "rs_report vec =
     (case vec_index vec (length vec div 2) of
        None \<Rightarrow> None
      | Some p50 \<Rightarrow> (case vec_index vec (length vec * 9 div 10) of
          None \<Rightarrow> None
        | Some p90 \<Rightarrow>
           (let p50_us = ival p50 sdiv 1000; p90_us = ival p90 sdiv 1000
            in Some (''p50: '' @ to_string p50_us @ ''us, p90: '' @ to_string p90_us @ ''us'' @ endl))))"

text \<open>\<open>SinkHandler::handle_bench\<close>; \<open>now\<close> is \<open>epoch.elapsed().as_nanos()\<close>.\<close>

definition RsSink_handle_bench :: "bool \<Rightarrow> nat \<Rightarrow> RsTiming \<Rightarrow> RsSink \<Rightarrow> int64 rust \<times> RsSink" where
  "RsSink_handle_bench checks now arg s =
     (let elapsed = as_i64 now in
      case rs_sub checks elapsed (rs_nanosec arg) of
        None \<Rightarrow> (Panic, s)
      | Some d \<Rightarrow>
         (let latency = i64 (ival d sdiv (NUM_RELAYS + 1)) in
          if vec_poisoned s then (Panic, s)
          else
            let vec = latency_vec s @ [latency] in
            if length vec = NUM_MESSAGES then
              let vec = sort vec in
              case rs_report vec of
                None \<Rightarrow> (Panic, s\<lparr>latency_vec := vec, vec_poisoned := True\<rparr>)
              | Some line \<Rightarrow> (Ok (i64 0), s\<lparr>latency_vec := [], rs_out := rs_out s @ line\<rparr>)
            else (Ok (i64 0), s\<lparr>latency_vec := vec\<rparr>)))"

text \<open>The process: the relays whose client's mutex is poisoned, and the sink.\<close>

record rs_process =
  poisoned :: "int set"
  rs_sink :: RsSink

definition rs_relay_copy :: "int \<Rightarrow> RsTiming \<Rightarrow> RsTiming" where
  "rs_relay_copy index arg = arg\<lparr>rs_source := ''relay hop '' @ to_string index\<rparr>"

text \<open>\<open>RelayHandler::handle_bench\<close>: the guard of the client is held while the call's result is unwrapped.\<close>

definition RsRelay_handle_bench ::
    "int \<Rightarrow> (int \<Rightarrow> RsTiming \<Rightarrow> rs_process \<Rightarrow> (int64 rust \<times> rs_process) option) \<Rightarrow>
      RsTiming \<Rightarrow> rs_process \<Rightarrow> (int64 rust \<times> rs_process) option" where
  "RsRelay_handle_bench index client_bench arg s =
     (let copy = rs_relay_copy index arg in
      if index \<in> poisoned s then Some (Panic, s)
      else case client_bench (index + 1 + RELAY_PORT_START) copy s of
        None \<Rightarrow> None
      | Some (Ok r, s') \<Rightarrow> Some (Ok (i64 0), s')
      | Some (_, s') \<Rightarrow> Some (Panic, s'\<lparr>poisoned := insert index (poisoned s')\<rparr>))"

text \<open>The ports of \<open>relay_loop(index)\<close> and \<open>sink_loop\<close>, and the servers of the threads that \<open>main\<close> spawns.\<close>

datatype rs_server = Rs_relay int | Rs_sink

definition rs_relay_port :: "int \<Rightarrow> int" where
  "rs_relay_port index = index + RELAY_PORT_START"

definition rs_sink_port :: int where
  "rs_sink_port = NUM_RELAYS + RELAY_PORT_START"

definition rs_servers :: "(int \<times> rs_server) list" where
  "rs_servers = (rs_sink_port, Rs_sink) # map (\<lambda>i. (rs_relay_port i, Rs_relay i)) (rev [0..NUM_RELAYS - 1])"

definition rs_server_on :: "int \<Rightarrow> rs_server option" where
  "rs_server_on port = map_of rs_servers port"

text \<open>
  A client's \<open>bench\<close>: the handler's result; the panic of a handler ends its connection,
  which the caller sees as an error of the transport. The first argument bounds the hops.
\<close>

fun rs_bench :: "nat \<Rightarrow> bool \<Rightarrow> nat \<Rightarrow> int \<Rightarrow> RsTiming \<Rightarrow> rs_process \<Rightarrow> (int64 rust \<times> rs_process) option" where
  "rs_bench 0 checks now port msg s = None"
| "rs_bench (Suc n) checks now port msg s =
     (case rs_server_on port of
        None \<Rightarrow> Some (Err ''transport'', s)
      | Some h \<Rightarrow>
         (case (case h of
              Rs_sink \<Rightarrow> (case RsSink_handle_bench checks now msg (rs_sink s) of (r, k) \<Rightarrow> Some (r, s\<lparr>rs_sink := k\<rparr>))
            | Rs_relay i \<Rightarrow> RsRelay_handle_bench i (rs_bench n checks now) msg s) of
            None \<Rightarrow> None
          | Some (Panic, s') \<Rightarrow> Some (Err ''transport'', s')
          | Some (r, s') \<Rightarrow> Some (r, s')))"

text \<open>
  The client loop of \<open>main\<close>: iteration \<open>i\<close> has the reading of the epoch's clock when the
  message is built, and the sink's when it arrives. \<open>unwrap\<close> panics on every \<open>Err\<close>.
\<close>

definition rs_main_msg :: "nat \<Rightarrow> nat \<Rightarrow> RsTiming" where
  "rs_main_msg i sent = \<lparr>rs_msgid = i64 (int i), rs_nanosec = as_i64 sent, rs_source = ''client''\<rparr>"

fun rs_client_loop :: "bool \<Rightarrow> (nat \<Rightarrow> nat \<times> nat) \<Rightarrow> nat \<Rightarrow> nat \<Rightarrow> rs_process \<Rightarrow> (unit rust \<times> rs_process) option" where
  "rs_client_loop checks env i 0 s = Some (Ok (), s)"
| "rs_client_loop checks env i (Suc k) s = (case env i of (sent, now) \<Rightarrow>
     (case rs_bench 21 checks now (0 + RELAY_PORT_START) (rs_main_msg i sent) s of
        None \<Rightarrow> None
      | Some (Ok r, s') \<Rightarrow> rs_client_loop checks env (Suc i) k s'
      | Some (_, s') \<Rightarrow> Some (Panic, s')))"

definition rs_start :: rs_process where
  "rs_start = \<lparr>poisoned = {}, rs_sink = \<lparr>latency_vec = [], vec_poisoned = False, rs_out = []\<rparr>\<rparr>"

definition rs_main :: "bool \<Rightarrow> (nat \<Rightarrow> nat \<times> nat) \<Rightarrow> (unit rust \<times> rs_process) option" where
  "rs_main checks env = rs_client_loop checks env 0 NUM_MESSAGES rs_start"

text \<open>
  The network actions in the order the sleeps give them: the sink listens first, then from
  the last relay to the first each connects to the next port and listens on its own, and
  the client connects last.
\<close>

definition rs_main_actions :: "action list" where
  "rs_main_actions =
     Listen rs_sink_port #
     concat (map (\<lambda>i. [Connect (i + 1 + RELAY_PORT_START), Listen (rs_relay_port i)]) (rev [0..NUM_RELAYS - 1])) @
     [Connect (0 + RELAY_PORT_START)]"

lemma rs_startup_order: "startup_ok [] [] rs_main_actions"
  by code_simp

section \<open>The sink\<close>

lemmas rs_consts = NUM_RELAYS_def RELAY_PORT_START_def NUM_MESSAGES_def

text \<open>The text of the report on a multiset of samples, with the percentiles of \<open>Latency\<close>.\<close>

definition rs_line :: "int64 multiset \<Rightarrow> string" where
  "rs_line M = ''p50: '' @ to_string (ival (percentile 500 M) sdiv 1000) @
     ''us, p90: '' @ to_string (ival (percentile 900 M) sdiv 1000) @ ''us'' @ endl"

lemma rs_report_sort: "length vec = 1000 \<Longrightarrow> rs_report (sort vec) = Some (rs_line (mset vec))"
  by (simp add: rs_report_def vec_index_def rs_line_def percentile_def)

text \<open>A sample that can be computed: the difference is in range, or the build wraps around.\<close>

definition rs_defined :: "bool \<Rightarrow> nat \<Rightarrow> RsTiming \<Rightarrow> bool" where
  "rs_defined checks now m \<longleftrightarrow> in_i64 (ival (as_i64 now) - ival (rs_nanosec m)) \<or> \<not> checks"

definition rs_latency :: "nat \<Rightarrow> RsTiming \<Rightarrow> int64" where
  "rs_latency now m = i64 (ival (i64 (ival (as_i64 now) - ival (rs_nanosec m))) sdiv 21)"

definition sink_ok :: "RsSink \<Rightarrow> bool" where
  "sink_ok s \<longleftrightarrow> \<not> vec_poisoned s \<and> length (latency_vec s) < 1000"

text \<open>The state after a sample.\<close>

definition rs_record :: "int64 \<Rightarrow> RsSink \<Rightarrow> RsSink" where
  "rs_record x s =
     (if length (latency_vec s) = 999
      then s\<lparr>latency_vec := [], rs_out := rs_out s @ rs_line (mset (latency_vec s @ [x]))\<rparr>
      else s\<lparr>latency_vec := latency_vec s @ [x]\<rparr>)"

lemma RsSink_handle_ok:
  assumes "rs_defined checks now m" and "sink_ok s"
  shows "RsSink_handle_bench checks now m s = (Ok (i64 0), rs_record (rs_latency now m) s)"
  using assms rs_report_sort [of "latency_vec s @ [rs_latency now m]"]
  by (auto simp: RsSink_handle_bench_def rs_sub_def rs_defined_def sink_ok_def rs_record_def rs_latency_def rs_consts Let_def)

lemma RsSink_handle_panic: "\<not> rs_defined checks now m \<Longrightarrow> RsSink_handle_bench checks now m s = (Panic, s)"
  by (simp add: RsSink_handle_bench_def rs_sub_def rs_defined_def Let_def)

lemma rs_record_ok [simp]: "sink_ok s \<Longrightarrow> sink_ok (rs_record x s)"
  by (auto simp: sink_ok_def rs_record_def)

text \<open>The sink only looks at the time stamp.\<close>

lemma RsSink_handle_copy: "RsSink_handle_bench checks now (rs_relay_copy i m) = RsSink_handle_bench checks now m"
  by (simp add: RsSink_handle_bench_def rs_relay_copy_def fun_eq_iff)

text \<open>The reference: one report for every full thousand samples, the rest waits in the vector.\<close>

fun rs_reports :: "int64 list \<Rightarrow> string" where
  "rs_reports xs = (if length xs < 1000 then [] else rs_line (mset (take 1000 xs)) @ rs_reports (drop 1000 xs))"

declare rs_reports.simps [simp del]

definition rs_served :: "string \<Rightarrow> int64 list \<Rightarrow> RsSink" where
  "rs_served out xs = \<lparr>latency_vec = drop (1000 * (length xs div 1000)) xs, vec_poisoned = False, rs_out = out @ rs_reports xs\<rparr>"

lemma rs_served_few: "length xs < 1000 \<Longrightarrow> rs_served out xs = \<lparr>latency_vec = xs, vec_poisoned = False, rs_out = out\<rparr>"
  by (simp add: rs_served_def rs_reports.simps)

lemma rs_served_full:
  assumes "length xs = 1000"
  shows "rs_served out (xs @ ys) = rs_served (out @ rs_line (mset xs)) ys"
proof -
  have "rs_reports (xs @ ys) = rs_line (mset xs) @ rs_reports ys"
    using assms by (subst rs_reports.simps) simp
  moreover have "(1000 + length ys) div 1000 = Suc (length ys div 1000)"
    by simp
  ultimately show ?thesis
    using assms by (simp add: rs_served_def)
qed

lemma fold_rs_record:
  assumes "sink_ok s"
  shows "fold rs_record xs s = rs_served (rs_out s) (latency_vec s @ xs)"
  using assms
proof (induction xs arbitrary: s)
  case Nil
  then show ?case by (simp add: sink_ok_def rs_served_few)
next
  case (Cons x xs)
  have IH: "fold rs_record (x # xs) s = rs_served (rs_out (rs_record x s)) (latency_vec (rs_record x s) @ xs)"
    using Cons by simp
  show ?case
  proof (cases "length (latency_vec s) = 999")
    case True
    with rs_served_full [of "latency_vec s @ [x]" "rs_out s" xs] IH show ?thesis
      by (simp add: rs_record_def [of x s])
  next
    case False
    with IH show ?thesis
      by (simp add: rs_record_def [of x s])
  qed
qed

text \<open>The sink's answers and state over a sequence of arrivals.\<close>

fun rs_serve :: "bool \<Rightarrow> (nat \<times> RsTiming) list \<Rightarrow> RsSink \<Rightarrow> int64 rust list \<times> RsSink" where
  "rs_serve checks [] s = ([], s)"
| "rs_serve checks ((now, m) # as) s =
     (case RsSink_handle_bench checks now m s of (r, s') \<Rightarrow>
      case rs_serve checks as s' of (rs, s'') \<Rightarrow> (r # rs, s''))"

lemma rs_serve_eq:
  "sink_ok s \<Longrightarrow> rs_serve checks as s =
     (map (\<lambda>(now, m). if rs_defined checks now m then Ok (i64 0) else Panic) as,
      fold rs_record (map (\<lambda>(now, m). rs_latency now m) (filter (\<lambda>(now, m). rs_defined checks now m) as)) s)"
proof (induction as arbitrary: s)
  case Nil
  then show ?case by simp
next
  case (Cons a as)
  obtain now m where "a = (now, m)"
    by (cases a)
  with Cons show ?case
    by (cases "rs_defined checks now m") (simp_all add: RsSink_handle_ok RsSink_handle_panic)
qed

section \<open>The chain\<close>

lemma distinct_ports: "distinct (map fst rs_servers)"
  by code_simp

lemma server_at:
  assumes "i \<le> 20"
  shows "rs_server_on (5000 + int i) = Some (if i = 20 then Rs_sink else Rs_relay (int i))"
  unfolding rs_server_on_def using assms
  by (intro map_of_is_SomeI [OF distinct_ports])
    (auto simp: rs_servers_def rs_relay_port_def rs_sink_port_def rs_consts image_iff)

text \<open>\<open>rs_chain checks now i m s\<close>: what the call at hop \<open>i\<close> comes to.\<close>

definition rs_chain :: "bool \<Rightarrow> nat \<Rightarrow> nat \<Rightarrow> RsTiming \<Rightarrow> rs_process \<Rightarrow> int64 rust \<times> rs_process" where
  "rs_chain checks now i m s = (case RsSink_handle_bench checks now m (rs_sink s) of
     (Ok r, k) \<Rightarrow> (Ok (i64 0), s\<lparr>rs_sink := k\<rparr>)
   | (_, k) \<Rightarrow> (Err ''transport'', s\<lparr>rs_sink := k, poisoned := poisoned s \<union> int ` {i..<20}\<rparr>))"

lemma RsSink_handle_result: "fst (RsSink_handle_bench checks now m s) \<in> {Ok (i64 0), Panic}"
  by (auto simp: RsSink_handle_bench_def Let_def split: option.split)

lemma rs_bench_chain:
  assumes "i + k = 20" and "poisoned s \<inter> int ` {i..<20} = {}"
  shows "rs_bench n checks now (5000 + int i) m s = (if k < n then Some (rs_chain checks now i m s) else None)"
  using assms
proof (induction n arbitrary: i k m)
  case 0
  then show ?case by simp
next
  case (Suc n)
  show ?case
  proof (cases k)
    case 0
    with Suc.prems RsSink_handle_result [of checks now m "rs_sink s"] show ?thesis
      by (auto simp: server_at [of 20, simplified] rs_chain_def split: prod.split)
  next
    case (Suc k')
    let ?copy = "rs_relay_copy (int i) m"
    have i: "i < 20" "int i \<notin> poisoned s" "int ` {i..<20} = insert (int i) (int ` {Suc i..<20})"
      using Suc Suc.prems by (auto simp flip: Suc_le_eq image_insert simp add: atLeastLessThan_def)
    have "rs_bench n checks now (5000 + int (Suc i)) ?copy s =
        (if k' < n then Some (rs_chain checks now (Suc i) ?copy s) else None)"
      using Suc Suc.prems i(3) by (intro Suc.IH) auto
    then have next_hop: "rs_bench n checks now (int i + 1 + RELAY_PORT_START) ?copy s =
        (if k' < n then Some (rs_chain checks now (Suc i) ?copy s) else None)"
      by (simp add: rs_consts algebra_simps)
    from RsSink_handle_result [of checks now m "rs_sink s"] i show ?thesis
      by (cases "RsSink_handle_bench checks now m (rs_sink s)")
        (auto simp: server_at RsRelay_handle_bench_def next_hop rs_chain_def RsSink_handle_copy Suc)
  qed
qed

lemma rs_bench_main: "poisoned s = {} \<Longrightarrow> rs_bench 21 checks now 5000 m s = Some (rs_chain checks now 0 m s)"
  using rs_bench_chain [of 0 20 s 21 checks now m] by simp

definition rs_round_latency :: "(nat \<Rightarrow> nat \<times> nat) \<Rightarrow> nat \<Rightarrow> int64" where
  "rs_round_latency env i = (case env i of (sent, now) \<Rightarrow> rs_latency now (rs_main_msg i sent))"

definition rs_round_defined :: "bool \<Rightarrow> (nat \<Rightarrow> nat \<times> nat) \<Rightarrow> nat \<Rightarrow> bool" where
  "rs_round_defined checks env i = (case env i of (sent, now) \<Rightarrow> rs_defined checks now (rs_main_msg i sent))"

lemma rs_client_loop_ok:
  assumes "\<forall>j. i \<le> j \<longrightarrow> j < i + k \<longrightarrow> rs_round_defined checks env j" and "poisoned s = {}" and "sink_ok (rs_sink s)"
  shows "rs_client_loop checks env i k s =
    Some (Ok (), s\<lparr>rs_sink := fold rs_record (map (rs_round_latency env) [i..<i + k]) (rs_sink s)\<rparr>)"
  using assms
proof (induction k arbitrary: i s)
  case 0
  then show ?case by simp
next
  case (Suc k)
  obtain sent now where env: "env i = (sent, now)"
    by (cases "env i")
  have "rs_round_defined checks env i"
    using Suc.prems(1) by simp
  then have "RsSink_handle_bench checks now (rs_main_msg i sent) (rs_sink s) =
      (Ok (i64 0), rs_record (rs_round_latency env i) (rs_sink s))"
    using env Suc.prems(3) by (simp add: rs_round_defined_def rs_round_latency_def RsSink_handle_ok)
  then have "rs_client_loop checks env i (Suc k) s =
      rs_client_loop checks env (Suc i) k (s\<lparr>rs_sink := rs_record (rs_round_latency env i) (rs_sink s)\<rparr>)"
    using env Suc.prems(2) by (simp add: rs_bench_main rs_chain_def rs_consts)
  also have "\<dots> = Some (Ok (), s\<lparr>rs_sink := fold rs_record (map (rs_round_latency env) [Suc i..<Suc i + k])
      (rs_record (rs_round_latency env i) (rs_sink s))\<rparr>)"
    using Suc.prems by (subst Suc.IH) simp_all
  moreover have "[i..<i + Suc k] = i # [Suc i..<Suc i + k]"
    by (simp add: upt_rec)
  ultimately show ?case
    by (simp only: list.map fold_simps)
qed

lemma rs_main_msg_range:
  assumes "sent \<le> now" and "now < 2 ^ 63"
  shows "rs_defined checks now (rs_main_msg i sent)"
    and "rs_latency now (rs_main_msg i sent) = i64 (int ((now - sent) div 21))"
proof -
  have now: "ival (as_i64 now) = int now" and sent: "ival (as_i64 sent) = int sent"
    using assms by (simp_all add: as_i64_def ival_i64 in_i64_def)
  have range: "in_i64 (int now - int sent)"
    using assms by (simp add: in_i64_def)
  with now sent show "rs_defined checks now (rs_main_msg i sent)"
    by (simp add: rs_defined_def rs_main_msg_def)
  show "rs_latency now (rs_main_msg i sent) = i64 (int ((now - sent) div 21))"
    using now sent range assms(1)
    by (simp add: rs_latency_def rs_main_msg_def ival_i64 signed_divide_int_def sgn_if of_nat_diff zdiv_int)
qed

section \<open>Properties\<close>

text \<open>
  C24: the Rust benchmark's \<open>main\<close>, with or without overflow checks: with a clock that does
  not go back (and has not run for 292 years), all thousand calls are answered, the sink
  prints one line, the percentiles of the thousand per-hop latencies, on the last of them,
  and \<open>main\<close> returns with the sink's vector empty again.
\<close>

theorem rs_main_reports:
  assumes "\<forall>i<1000. fst (env i) \<le> snd (env i) \<and> snd (env i) < 2 ^ 63"
  shows "rs_main checks env = Some (Ok (), \<lparr>poisoned = {},
    rs_sink = \<lparr>latency_vec = [], vec_poisoned = False,
      rs_out = rs_line (mset (map (\<lambda>i. i64 (int ((snd (env i) - fst (env i)) div 21))) [0..<1000]))\<rparr>\<rparr>)"
proof -
  let ?xs = "map (rs_round_latency env) [0..<1000]"
  have "rs_round_defined checks env i" "rs_round_latency env i = i64 (int ((snd (env i) - fst (env i)) div 21))" if "i < 1000" for i
    using assms that rs_main_msg_range [of "fst (env i)" "snd (env i)"]
    by (auto simp: rs_round_defined_def rs_round_latency_def split: prod.splits)
  then have xs: "?xs = map (\<lambda>i. i64 (int ((snd (env i) - fst (env i)) div 21))) [0..<1000]"
    and "rs_main checks env = Some (Ok (), rs_start\<lparr>rs_sink := fold rs_record ?xs (rs_sink rs_start)\<rparr>)"
    using rs_client_loop_ok [of 0 1000 checks env rs_start]
    by (simp_all add: rs_main_def rs_start_def rs_consts sink_ok_def)
  moreover have "fold rs_record ?xs (rs_sink rs_start) = rs_served [] ?xs"
    by (subst fold_rs_record) (simp_all add: sink_ok_def rs_start_def)
  moreover have "rs_served [] (?xs @ []) = \<lparr>latency_vec = [], vec_poisoned = False, rs_out = rs_line (mset ?xs)\<rparr>"
    by (subst rs_served_full) (simp_all add: rs_served_few)
  ultimately have "rs_main checks env = Some (Ok (), \<lparr>poisoned = {},
      rs_sink = \<lparr>latency_vec = [], vec_poisoned = False, rs_out = rs_line (mset ?xs)\<rparr>\<rparr>)"
    by (simp add: rs_start_def)
  then show ?thesis
    by (simp only: xs)
qed

theorem rs_main_reports_witness:
  "\<exists>s. rs_main True (\<lambda>i. (i, i + 42)) = Some (Ok (), s) \<and> rs_out (rs_sink s) = rs_line (replicate_mset 1000 (i64 2))"
  using rs_main_reports [of "\<lambda>i. (i, i + 42)" True] by (simp add: image_mset_const_eq)

text \<open>
  C25: the Rust sink over any sequence of messages, from its start. A message whose
  subtraction overflows in a build with overflow checks makes the handler panic before it
  takes the lock, and the sink stays as it was; every other message is answered with 0 and
  is a sample. Each full thousand of samples is reported once, in order, and the samples
  since then are kept; so unlike the C++ sinks it measures again after its report. A sample
  is the one the C++ sinks compute whenever that is defined.
\<close>

theorem rs_sink_reports:
  fixes checks :: bool and as :: "(nat \<times> RsTiming) list"
  defines "xs \<equiv> map (\<lambda>(now, m). rs_latency now m) (filter (\<lambda>(now, m). rs_defined checks now m) as)"
  shows "rs_serve checks as (rs_sink rs_start) =
     (map (\<lambda>(now, m). if in_i64 (ival (as_i64 now) - ival (rs_nanosec m)) \<or> \<not> checks then Ok (i64 0) else Panic) as,
      \<lparr>latency_vec = drop (1000 * (length xs div 1000)) xs, vec_poisoned = False, rs_out = rs_reports xs\<rparr>) \<and>
    (\<forall>now m. in_i64 (ival (as_i64 now) - ival (rs_nanosec m)) \<longrightarrow>
       per_hop (i64 21) (as_i64 now) (rs_nanosec m) = Inr (rs_latency now m))"
proof
  have "sink_ok (rs_sink rs_start)"
    by (simp add: sink_ok_def rs_start_def)
  from rs_serve_eq [OF this, of checks as, folded xs_def] fold_rs_record [OF this, of xs]
  show "rs_serve checks as (rs_sink rs_start) =
     (map (\<lambda>(now, m). if in_i64 (ival (as_i64 now) - ival (rs_nanosec m)) \<or> \<not> checks then Ok (i64 0) else Panic) as,
      \<lparr>latency_vec = drop (1000 * (length xs div 1000)) xs, vec_poisoned = False, rs_out = rs_reports xs\<rparr>)"
    by (simp add: rs_served_def rs_start_def) (simp add: rs_defined_def)
  have "ival (i64 21) = 21"
    by (simp add: ival_i64 in_i64_def)
  then show "\<forall>now m. in_i64 (ival (as_i64 now) - ival (rs_nanosec m)) \<longrightarrow>
      per_hop (i64 21) (as_i64 now) (rs_nanosec m) = Inr (rs_latency now m)"
    by (simp add: rs_latency_def ival_i64 per_hop_eq)
qed

theorem rs_sink_reports_witness:
  "rs_serve True [(42, rs_main_msg 0 0), (5, (rs_main_msg 1 0)\<lparr>rs_nanosec := i64 (- (2 ^ 63))\<rparr>)] (rs_sink rs_start) =
     ([Ok (i64 0), Panic], \<lparr>latency_vec = [i64 2], vec_poisoned = False, rs_out = []\<rparr>) \<and>
   per_hop (i64 21) (as_i64 42) (rs_nanosec (rs_main_msg 0 0)) = Inr (i64 2)"
proof -
  have "ival (as_i64 42) = 42" "ival (as_i64 0) = 0" "ival (as_i64 5) = 5" "ival (i64 (- (2 ^ 63))) = - (2 ^ 63)"
    by (simp_all add: as_i64_def ival_i64 in_i64_def)
  moreover from this have "rs_latency 42 (rs_main_msg 0 0) = i64 2"
    by (simp add: rs_latency_def rs_main_msg_def ival_i64 in_i64_def signed_divide_int_def)
  ultimately show ?thesis
    using rs_sink_reports [of True "[]", THEN conjunct2, rule_format, of 42 "rs_main_msg 0 0"]
      rs_sink_reports [of True "[(42, rs_main_msg 0 0), (5, (rs_main_msg 1 0)\<lparr>rs_nanosec := i64 (- (2 ^ 63))\<rparr>)]", THEN conjunct1]
    by (simp add: rs_main_msg_def rs_defined_def in_i64_def rs_reports.simps)
qed

text \<open>
  C26: a message whose latency overflows, in a build with overflow checks: the sink panics
  and keeps nothing, every relay panics in its turn on the broken connection and leaves its
  client's mutex poisoned, and the caller gets an error. From then on every call through
  the chain fails, whatever the message: one bad message takes all twenty relays down. In
  a build without the checks it is answered like any other.
\<close>

theorem rs_overflow_poisons:
  assumes "\<not> in_i64 (ival (as_i64 now) - ival (rs_nanosec m))" and "poisoned s = {}" and "sink_ok (rs_sink s)"
  defines "down \<equiv> s\<lparr>poisoned := set [0..NUM_RELAYS - 1]\<rparr>"
  shows "rs_bench 21 True now RELAY_PORT_START m s = Some (Err ''transport'', down) \<and>
    rs_bench 21 True now' RELAY_PORT_START m' down = Some (Err ''transport'', down) \<and>
    (\<exists>k. rs_bench 21 False now RELAY_PORT_START m s = Some (Ok (i64 0), s\<lparr>rs_sink := k\<rparr>) \<and> sink_ok k)"
proof (intro conjI)
  have hops: "int ` {0..<20} = set [0..NUM_RELAYS - 1]"
    by (auto simp: NUM_RELAYS_def image_int_atLeastLessThan)
  show "rs_bench 21 True now RELAY_PORT_START m s = Some (Err ''transport'', down)"
    using assms(1,2) RsSink_handle_panic [of True now m "rs_sink s"] hops
    by (simp add: rs_bench_main RELAY_PORT_START_def rs_chain_def rs_defined_def down_def)
  have "0 \<in> poisoned down"
    by (simp add: down_def NUM_RELAYS_def)
  then show "rs_bench 21 True now' RELAY_PORT_START m' down = Some (Err ''transport'', down)"
    using server_at [of 0] by (simp add: eval_nat_numeral RELAY_PORT_START_def RsRelay_handle_bench_def)
  show "\<exists>k. rs_bench 21 False now RELAY_PORT_START m s = Some (Ok (i64 0), s\<lparr>rs_sink := k\<rparr>) \<and> sink_ok k"
    using assms(2,3) RsSink_handle_ok [of False now m "rs_sink s"]
    by (intro exI [of _ "rs_record (rs_latency now m) (rs_sink s)"])
      (simp add: rs_bench_main RELAY_PORT_START_def rs_chain_def rs_defined_def)
qed

theorem rs_overflow_poisons_witness:
  "\<exists>down. rs_bench 21 True 5 RELAY_PORT_START \<lparr>rs_msgid = i64 0, rs_nanosec = i64 (- (2 ^ 63)), rs_source = ''x''\<rparr> rs_start =
       Some (Err ''transport'', down) \<and>
     rs_bench 21 True 9 RELAY_PORT_START (rs_main_msg 0 9) down = Some (Err ''transport'', down)"
proof -
  have "ival (as_i64 5) = 5" "ival (i64 (- (2 ^ 63))) = - (2 ^ 63)"
    by (simp_all add: as_i64_def ival_i64 in_i64_def)
  then have "\<not> in_i64 (ival (as_i64 5) - ival (i64 (- (2 ^ 63))))"
    by (simp add: in_i64_def)
  then show ?thesis
    using rs_overflow_poisons [of 5 "\<lparr>rs_msgid = i64 0, rs_nanosec = i64 (- (2 ^ 63)), rs_source = ''x''\<rparr>" rs_start 9 "rs_main_msg 0 9"]
    by (intro exI) (auto simp: rs_start_def sink_ok_def)
qed

end
