(* ===== verification/Rust_Wire.thy ===== *)
theory Rust_Wire
  imports Rust_Bench Thrift_Rpc
begin

text \<open>
  The code the Thrift compiler generated for Rust (\<open>thrift-rs/src/timing.rs\<close>, of which
  \<open>zenohbench/src/timing.rs\<close> repeats the part on \<open>Timing\<close>): readers and writers, client and
  processor, over the same protocol objects as the C++ code (\<open>Wire\<close>), so that the two can be
  put at the two ends of one connection. \<open>?\<close> is the sequencing of \<open>prog\<close>, an \<open>Err\<close> is
  \<open>Throw\<close>. The byte counts that the protocol's operations report in C++ are not used.
\<close>

section \<open>Library functions\<close>

text \<open>
  The errors the library's \<open>verify\<close> functions return when a check fails, and the text of an
  error (\<open>to_string\<close>). \<open>field_id\<close> is the field's number: every field but the stop field has
  one.
\<close>

record rs_errors =
  missing_required_field :: "string \<Rightarrow> exn"
  unexpected_sequence_number :: "int32 \<Rightarrow> int32 \<Rightarrow> exn"
  unexpected_service_call :: "string \<Rightarrow> string \<Rightarrow> exn"
  unexpected_message_type :: "mtype \<Rightarrow> mtype \<Rightarrow> exn"
  error_text :: "exn \<Rightarrow> string"

definition verify :: "bool \<Rightarrow> exn \<Rightarrow> ('w, unit) prog" where
  "verify ok e = (if ok then returnP () else stopP (Throw e))"

definition verify_required_field_exists :: "rs_errors \<Rightarrow> string \<Rightarrow> 'a option \<Rightarrow> ('w, 'a) prog" where
  "verify_required_field_exists errs name f = (case f of
     None \<Rightarrow> stopP (Throw (missing_required_field errs name)) | Some x \<Rightarrow> returnP x)"

section \<open>Readers\<close>

text \<open>The loop over the fields, which every reader has; \<open>vars\<close> are its variables \<open>f_0\<close>, \<open>f_1\<close>, \<dots>\<close>

definition rs_read_field ::
    "'w tprotocol \<Rightarrow> (ttype \<Rightarrow> int16 \<Rightarrow> 's \<Rightarrow> ('w, 's) prog) \<Rightarrow> 's \<Rightarrow> ('w, ('s, 's) ctl) prog" where
  "rs_read_field i_prot match vars =
     bindP (readFieldBegin i_prot) (\<lambda>(field_type, field_id, _).
     if field_type = T_STOP then returnP (Break vars)
     else
       bindP (match field_type field_id vars) (\<lambda>vars.
       bindP (readFieldEnd i_prot) (\<lambda>_.
       returnP (Continue vars))))"

definition rs_read_fields ::
    "'w tprotocol \<Rightarrow> (ttype \<Rightarrow> int16 \<Rightarrow> 's \<Rightarrow> ('w, 's) prog) \<Rightarrow> 's \<Rightarrow> ('w, 's) prog" where
  "rs_read_fields i_prot match vars =
     bindP (readStructBegin i_prot) (\<lambda>_.
     bindP (loopP (rs_read_field i_prot match) vars) (\<lambda>vars.
     bindP (readStructEnd i_prot) (\<lambda>_.
     returnP vars)))"

definition rs_skip :: "'w tprotocol \<Rightarrow> ttype \<Rightarrow> 's \<Rightarrow> ('w, 's) prog" where
  "rs_skip i_prot field_type vars = bindP (skip i_prot field_type) (\<lambda>_. returnP vars)"

text \<open>\<open>Timing::read_from_in_protocol\<close>: the cases look at the field's number only, not at its type.\<close>

type_synonym rs_timing_vars = "int64 option \<times> int64 option \<times> string option"

definition rs_timing_match :: "'w tprotocol \<Rightarrow> ttype \<Rightarrow> int16 \<Rightarrow> rs_timing_vars \<Rightarrow> ('w, rs_timing_vars) prog" where
  "rs_timing_match i_prot field_type field_id = (\<lambda>(f_1, f_2, f_3).
     if field_id = 1 then bindP (readI64 i_prot) (\<lambda>(val, _). returnP (Some val, f_2, f_3))
     else if field_id = 2 then bindP (readI64 i_prot) (\<lambda>(val, _). returnP (f_1, Some val, f_3))
     else if field_id = 3 then bindP (readString i_prot) (\<lambda>(val, _). returnP (f_1, f_2, Some val))
     else rs_skip i_prot field_type (f_1, f_2, f_3))"

definition rs_timing_new :: "rs_errors \<Rightarrow> rs_timing_vars \<Rightarrow> ('w, RsTiming) prog" where
  "rs_timing_new errs = (\<lambda>(f_1, f_2, f_3).
     bindP (verify_required_field_exists errs ''Timing.msgid'' f_1) (\<lambda>msgid.
     bindP (verify_required_field_exists errs ''Timing.nanosec'' f_2) (\<lambda>nanosec.
     bindP (verify_required_field_exists errs ''Timing.source'' f_3) (\<lambda>source.
     returnP \<lparr>rs_msgid = msgid, rs_nanosec = nanosec, rs_source = source\<rparr>))))"

definition rs_timing_read :: "rs_errors \<Rightarrow> 'w tprotocol \<Rightarrow> ('w, RsTiming) prog" where
  "rs_timing_read errs i_prot =
     bindP (rs_read_fields i_prot (rs_timing_match i_prot) (None, None, None)) (rs_timing_new errs)"

text \<open>\<open>BenchBenchArgs\<close> and \<open>BenchBenchResult\<close>.\<close>

definition rs_args_match :: "rs_errors \<Rightarrow> 'w tprotocol \<Rightarrow> ttype \<Rightarrow> int16 \<Rightarrow> RsTiming option \<Rightarrow> ('w, RsTiming option) prog" where
  "rs_args_match errs i_prot field_type field_id f_1 =
     (if field_id = 1 then bindP (rs_timing_read errs i_prot) (\<lambda>val. returnP (Some val))
      else rs_skip i_prot field_type f_1)"

definition rs_args_read :: "rs_errors \<Rightarrow> 'w tprotocol \<Rightarrow> ('w, RsTiming) prog" where
  "rs_args_read errs i_prot =
     bindP (rs_read_fields i_prot (rs_args_match errs i_prot) None) (\<lambda>f_1.
     verify_required_field_exists errs ''BenchBenchArgs.arg'' f_1)"

definition rs_result_match :: "'w tprotocol \<Rightarrow> ttype \<Rightarrow> int16 \<Rightarrow> int64 option \<Rightarrow> ('w, int64 option) prog" where
  "rs_result_match i_prot field_type field_id f_0 =
     (if field_id = 0 then bindP (readI64 i_prot) (\<lambda>(val, _). returnP (Some val))
      else rs_skip i_prot field_type f_0)"

definition rs_result_read :: "'w tprotocol \<Rightarrow> ('w, int64 option) prog" where
  "rs_result_read i_prot = rs_read_fields i_prot (rs_result_match i_prot) None"

definition rs_ok_or :: "int64 option \<Rightarrow> stop + int64" where
  "rs_ok_or res = (case res of
     Some x \<Rightarrow> Inr x
   | None \<Rightarrow> Inl (Throw (TApplicationException MISSING_RESULT ''no result received for BenchBench'')))"

section \<open>Writers\<close>

text \<open>A sequence of calls, each with \<open>?\<close>.\<close>

fun rs_calls :: "('w, unit) prog list \<Rightarrow> ('w, unit) prog" where
  "rs_calls [] = returnP ()"
| "rs_calls (m # ms) = seqP m (rs_calls ms)"

definition call :: "('w, 'a) prog \<Rightarrow> ('w, unit) prog" where
  "call m = bindP m (\<lambda>_. returnP ())"

definition rs_timing_write :: "'w tprotocol \<Rightarrow> RsTiming \<Rightarrow> ('w, unit) prog" where
  "rs_timing_write o_prot this = rs_calls [
     call (writeStructBegin o_prot ''timing''),
     call (writeFieldBegin o_prot ''msgid'' T_I64 1),
     call (writeI64 o_prot (rs_msgid this)),
     call (writeFieldEnd o_prot),
     call (writeFieldBegin o_prot ''nanosec'' T_I64 2),
     call (writeI64 o_prot (rs_nanosec this)),
     call (writeFieldEnd o_prot),
     call (writeFieldBegin o_prot ''source'' T_STRING 3),
     call (writeString o_prot (rs_source this)),
     call (writeFieldEnd o_prot),
     call (writeFieldStop o_prot),
     call (writeStructEnd o_prot)]"

definition rs_args_write :: "'w tprotocol \<Rightarrow> RsTiming \<Rightarrow> ('w, unit) prog" where
  "rs_args_write o_prot arg = rs_calls [
     call (writeStructBegin o_prot ''bench_args''),
     call (writeFieldBegin o_prot ''arg'' T_STRUCT 1),
     rs_timing_write o_prot arg,
     call (writeFieldEnd o_prot),
     call (writeFieldStop o_prot),
     call (writeStructEnd o_prot)]"

definition rs_result_write :: "'w tprotocol \<Rightarrow> int64 option \<Rightarrow> ('w, unit) prog" where
  "rs_result_write o_prot res = rs_calls (
     [call (writeStructBegin o_prot ''BenchBenchResult'')] @
     (case res of None \<Rightarrow> [] | Some fld_var \<Rightarrow>
        [call (writeFieldBegin o_prot ''result_value'' T_I64 0),
         call (writeI64 o_prot fld_var),
         call (writeFieldEnd o_prot)]) @
     [call (writeFieldStop o_prot),
      call (writeStructEnd o_prot)])"

section \<open>Client and processor\<close>

record 'w BenchSyncClient =
  i_prot_mut :: "'w tprotocol"
  o_prot_mut :: "'w tprotocol"
  sequence_number :: int32

definition BenchSyncClient_new :: "'w tprotocol \<Rightarrow> 'w tprotocol \<Rightarrow> 'w BenchSyncClient" where
  "BenchSyncClient_new input_protocol output_protocol =
     \<lparr>i_prot_mut = input_protocol, o_prot_mut = output_protocol, sequence_number = 0\<rparr>"

text \<open>
  \<open>+= 1\<close> on \<open>i32\<close>: at the largest number it panics (\<open>None\<close>) when the build has overflow
  checks and wraps around when it has not.
\<close>

definition increment_sequence_number :: "bool \<Rightarrow> 'w BenchSyncClient \<Rightarrow> 'w BenchSyncClient option" where
  "increment_sequence_number checks this =
     (if checks \<and> sint (sequence_number this) = 2 ^ 31 - 1 then None
      else Some (this\<lparr>sequence_number := sequence_number this + 1\<rparr>))"

text \<open>
  \<open>bench\<close>: sending, and receiving. The sequence number stays incremented however it ends;
  when it cannot be incremented nothing is sent.
\<close>

definition rs_send_bench :: "'w BenchSyncClient \<Rightarrow> RsTiming \<Rightarrow> ('w, unit) prog" where
  "rs_send_bench this arg =
     (let o_prot = o_prot_mut this in
     seqP (writeMessageBegin o_prot ''bench'' T_CALL (sequence_number this)) (
     seqP (rs_args_write o_prot arg) (
     seqP (writeMessageEnd o_prot) (
     flush o_prot))))"

definition rs_recv_bench :: "rs_errors \<Rightarrow> 'w BenchSyncClient \<Rightarrow> ('w, int64) prog" where
  "rs_recv_bench errs this =
     (let i_prot = i_prot_mut this in
     bindP (readMessageBegin i_prot) (\<lambda>(name, message_type, seq).
     seqP (verify (sequence_number this = seq) (unexpected_sequence_number errs (sequence_number this) seq)) (
     seqP (verify (name = ''bench'') (unexpected_service_call errs ''bench'' name)) (
     if message_type = T_EXCEPTION then
       bindP (appexn_read i_prot) (\<lambda>(k, m).
       seqP (readMessageEnd i_prot) (
       stopP (Throw (TApplicationException k m))))
     else
     seqP (verify (message_type = T_REPLY) (unexpected_message_type errs T_REPLY message_type)) (
     bindP (rs_result_read i_prot) (\<lambda>result.
     seqP (readMessageEnd i_prot) (
     pureP (rs_ok_or result))))))))"

definition rs_client_bench ::
    "bool \<Rightarrow> rs_errors \<Rightarrow> 'w BenchSyncClient \<Rightarrow> RsTiming \<Rightarrow> ('w BenchSyncClient \<times> ('w, int64) prog) option" where
  "rs_client_bench checks errs this arg =
     (case increment_sequence_number checks this of
        None \<Rightarrow> None
      | Some this \<Rightarrow> Some (this, seqP (rs_send_bench this arg) (rs_recv_bench errs this)))"

text \<open>\<open>process_bench\<close>: it does not read the end of the call message. A handler's error is caught as a value.\<close>

definition rs_write_error :: "'w tprotocol \<Rightarrow> int32 \<Rightarrow> app_kind \<Rightarrow> string \<Rightarrow> ('w, unit) prog" where
  "rs_write_error o_prot seq k m =
     seqP (writeMessageBegin o_prot ''bench'' T_EXCEPTION seq) (
     seqP (appexn_write o_prot k m) (
     seqP (writeMessageEnd o_prot) (
     flush o_prot)))"

definition rs_process_bench ::
    "rs_errors \<Rightarrow> (RsTiming \<Rightarrow> ('w, int64) prog) \<Rightarrow> int32 \<Rightarrow> 'w tprotocol \<Rightarrow> 'w tprotocol \<Rightarrow> ('w, unit) prog" where
  "rs_process_bench errs handler seq i_prot o_prot =
     bindP (rs_args_read errs i_prot) (\<lambda>arg.
     bindP (catchP (bindP (handler arg) (\<lambda>r. returnP (Inr r))) (\<lambda>e. returnP (Inl e))) (\<lambda>result.
     case result of
       Inr handler_return \<Rightarrow>
         seqP (writeMessageBegin o_prot ''bench'' T_REPLY seq) (
         seqP (rs_result_write o_prot (Some handler_return)) (
         seqP (writeMessageEnd o_prot) (
         flush o_prot)))
     | Inl e \<Rightarrow> (case e of
         TApplicationException k m \<Rightarrow> rs_write_error o_prot seq k m
       | _ \<Rightarrow> rs_write_error o_prot seq UNKNOWN (error_text errs e))))"

text \<open>
  \<open>process\<close>: the error of a method that is not known, or of \<open>process_bench\<close>, goes to the
  library's \<open>handle_process_result\<close>.
\<close>

definition rs_process_call ::
    "rs_errors \<Rightarrow> (string \<times> mtype \<times> int32 \<Rightarrow> exn + unit \<Rightarrow> ('w, unit) prog) \<Rightarrow>
      (RsTiming \<Rightarrow> ('w, int64) prog) \<Rightarrow> 'w tprotocol \<Rightarrow> 'w tprotocol \<Rightarrow> ('w, unit) prog" where
  "rs_process_call errs handle_process_result handler i_prot o_prot =
     bindP (readMessageBegin i_prot) (\<lambda>(name, message_type, seq).
     bindP (catchP
         (seqP (if name = ''bench'' then rs_process_bench errs handler seq i_prot o_prot
                else stopP (Throw (TApplicationException UNKNOWN_METHOD (''unknown method '' @ name))))
           (returnP (Inr ())))
         (\<lambda>e. returnP (Inl e))) (\<lambda>res.
     handle_process_result (name, message_type, seq) res))"

section \<open>What the readers do\<close>

text \<open>
  The cases of a reader take a field that satisfies \<open>good\<close> and change the variables as \<open>upd\<close>
  says; then the loop does so for all fields, in their order.
\<close>

context protocol_in
begin

definition rs_handles ::
    "(int16 \<times> val \<Rightarrow> bool) \<Rightarrow> (ttype \<Rightarrow> int16 \<Rightarrow> 's \<Rightarrow> ('w, 's) prog) \<Rightarrow> (int16 \<times> val \<Rightarrow> 's \<Rightarrow> 's) \<Rightarrow> bool" where
  "rs_handles good match upd \<longleftrightarrow> (\<forall>v i x ts vars. good (i, x) \<longrightarrow> incoming v = encode x @ ts \<longrightarrow> levels x \<le> in_depth v \<longrightarrow>
     yields view v (match (type_of x) i vars) (Inr (upd (i, x) vars)) (v\<lparr>incoming := ts\<rparr>))"

lemma rs_handlesI:
  assumes "\<And>v i x ts vars. good (i, x) \<Longrightarrow> incoming v = encode x @ ts \<Longrightarrow> levels x \<le> in_depth v \<Longrightarrow>
    yields view v (match (type_of x) i vars) (Inr (upd (i, x) vars)) (v\<lparr>incoming := ts\<rparr>)"
  shows "rs_handles good match upd"
  using assms by (simp add: rs_handles_def)

lemma rs_handlesD:
  "rs_handles good match upd \<Longrightarrow> good (i, x) \<Longrightarrow> incoming v = encode x @ ts \<Longrightarrow> levels x \<le> in_depth v \<Longrightarrow>
    yields view v (match (type_of x) i vars) (Inr (upd (i, x) vars)) (v\<lparr>incoming := ts\<rparr>)"
  by (simp add: rs_handles_def)

lemma rs_skip_yields:
  assumes "incoming v = encode x @ ts" and "levels x \<le> in_depth v"
  shows "yields view v (rs_skip prot (type_of x) vars) (Inr vars) (v\<lparr>incoming := ts\<rparr>)"
  unfolding rs_skip_def by (rule yields_bind [OF skip [OF assms]]) (rule yields_return)

lemma rs_read_field_stop:
  assumes "incoming v = Field_stop # ts"
  shows "yields view v (rs_read_field prot match vars) (Inr (Break vars)) (v\<lparr>incoming := ts\<rparr>)"
proof -
  obtain i where "yields view v (readFieldBegin prot) (Inr (T_STOP, i, cost Field_stop)) (v\<lparr>incoming := ts\<rparr>)"
    using readFieldStop [OF assms] by auto
  then show ?thesis
    unfolding rs_read_field_def by (rule yields_bind) (simp add: yields_return)
qed

lemma rs_read_field_value:
  assumes "rs_handles good match upd" and "good (i, x)" and "levels x \<le> in_depth v"
    and "incoming v = Field_begin (type_of x) i # encode x @ Field_end # ts"
  shows "yields view v (rs_read_field prot match vars) (Inr (Continue (upd (i, x) vars))) (v\<lparr>incoming := ts\<rparr>)"
proof -
  let ?v1 = "v\<lparr>incoming := encode x @ Field_end # ts\<rparr>" and ?v2 = "v\<lparr>incoming := Field_end # ts\<rparr>"
  have b: "yields view v (readFieldBegin prot) (Inr (type_of x, i, cost (Field_begin (type_of x) i))) ?v1"
    using assms(4) by (rule readFieldBegin)
  have c: "yields view ?v1 (match (type_of x) i vars) (Inr (upd (i, x) vars)) ?v2"
    using rs_handlesD [OF assms(1,2), of ?v1 "Field_end # ts"] assms(3) by simp
  have e: "yields view ?v2 (readFieldEnd prot) (Inr (cost Field_end)) (v\<lparr>incoming := ts\<rparr>)"
    using readFieldEnd [of ?v2] by simp
  show ?thesis
    unfolding rs_read_field_def
    by (rule yields_bind [OF b], unfold split, simp only: type_of_STOP if_False,
        rule yields_bind [OF c], rule yields_bind [OF e], rule yields_return)
qed

lemma rs_read_field_stops:
  assumes "incoming v = Field_begin (type_of x) i # us" and "yields view (v\<lparr>incoming := us\<rparr>) (match (type_of x) i vars) (Inl e) v'"
  shows "yields view v (rs_read_field prot match vars) (Inl e) v'"
  unfolding rs_read_field_def
  by (rule yields_bind [OF readFieldBegin [OF assms(1)]])
    (unfold split, simp only: type_of_STOP if_False, rule yields_bind_stop [OF assms(2)])

lemma rs_read_loop:
  assumes "rs_handles good match upd" and "\<forall>f \<in> set fs. good f"
    and "incoming v = encode_fields fs @ Field_stop # ts" and "levels_fields fs \<le> in_depth v"
  shows "yields view v (loopP (rs_read_field prot match) vars) (Inr (fold upd fs vars)) (v\<lparr>incoming := ts\<rparr>)"
  using assms(2-4)
proof (induction fs arbitrary: v vars)
  case Nil
  then show ?case
    by (intro yields_loop_break) (simp add: rs_read_field_stop)
next
  case (Cons f fs)
  obtain i x where f: "f = (i, x)"
    by (cases f)
  let ?v = "v\<lparr>incoming := encode_fields fs @ Field_stop # ts\<rparr>"
  have "yields view v (rs_read_field prot match vars) (Inr (Continue (upd (i, x) vars))) ?v"
    using Cons.prems by (intro rs_read_field_value [OF assms(1)]) (simp_all add: f)
  moreover have "yields view ?v (loopP (rs_read_field prot match) (upd (i, x) vars))
      (Inr (fold upd fs (upd (i, x) vars))) (v\<lparr>incoming := ts\<rparr>)"
    using Cons.IH [of ?v "upd (i, x) vars"] Cons.prems by (simp add: f)
  ultimately show ?case
    by (simp add: f yields_loop_continue)
qed

text \<open>The loop over good fields up to one whose case fails.\<close>

lemma rs_read_loop_stops:
  assumes "rs_handles good match upd" and "\<forall>f \<in> set gs. good f"
    and "incoming v = encode_fields gs @ Field_begin (type_of x) i # us" and "levels_fields gs \<le> in_depth v"
    and "\<And>vars. yields view (v\<lparr>incoming := us\<rparr>) (match (type_of x) i vars) (Inl e) v'"
  shows "yields view v (loopP (rs_read_field prot match) vars) (Inl e) v'"
  using assms(2-5)
proof (induction gs arbitrary: v vars)
  case Nil
  then show ?case
    by (intro yields_loop_stop rs_read_field_stops) simp_all
next
  case (Cons f gs)
  obtain j y where f: "f = (j, y)"
    by (cases f)
  let ?v = "v\<lparr>incoming := encode_fields gs @ Field_begin (type_of x) i # us\<rparr>"
  have "yields view v (rs_read_field prot match vars) (Inr (Continue (upd (j, y) vars))) ?v"
    using Cons.prems by (intro rs_read_field_value [OF assms(1)]) (simp_all add: f)
  moreover have "yields view ?v (loopP (rs_read_field prot match) (upd (j, y) vars)) (Inl e) v'"
    using Cons.IH [of ?v "upd (j, y) vars"] Cons.prems by (simp add: f)
  ultimately show ?case
    by (simp add: yields_loop_continue)
qed

lemma rs_read_fields_yields:
  assumes "rs_handles good match upd" and "\<forall>f \<in> set fs. good f"
    and "incoming v = encode (VStruct fs) @ ts" and "levels (VStruct fs) \<le> in_depth v"
  shows "yields view v (rs_read_fields prot match vars) (Inr (fold upd fs vars)) (v\<lparr>incoming := ts\<rparr>)"
proof -
  let ?v1 = "v\<lparr>incoming := encode_fields fs @ Field_stop # Struct_end # ts\<rparr>" and ?v2 = "v\<lparr>incoming := Struct_end # ts\<rparr>"
  have b: "yields view v (readStructBegin prot) (Inr (cost Struct_begin)) ?v1"
    using assms(3) by (intro readStructBegin) simp
  have l: "yields view ?v1 (loopP (rs_read_field prot match) vars) (Inr (fold upd fs vars)) ?v2"
    using rs_read_loop [OF assms(1,2), of ?v1 "Struct_end # ts"] assms(4) by simp
  have e: "yields view ?v2 (readStructEnd prot) (Inr (cost Struct_end)) (v\<lparr>incoming := ts\<rparr>)"
    using readStructEnd [of ?v2] by simp
  show ?thesis
    unfolding rs_read_fields_def
    by (rule yields_bind [OF b], rule yields_bind [OF l], rule yields_bind [OF e], rule yields_return)
qed

end

text \<open>\<open>Timing\<close>: what a field does, the fields whose types are right, and what becomes of the variables.\<close>

fun rs_timing_field :: "int16 \<times> val \<Rightarrow> rs_timing_vars \<Rightarrow> rs_timing_vars" where
  "rs_timing_field (i, VI64 x) (f_1, f_2, f_3) =
     (if i = 1 then (Some x, f_2, f_3) else if i = 2 then (f_1, Some x, f_3) else (f_1, f_2, f_3))"
| "rs_timing_field (i, VString s) (f_1, f_2, f_3) = (if i = 3 then (f_1, f_2, Some s) else (f_1, f_2, f_3))"
| "rs_timing_field (i, _) vars = vars"

fun rs_timing_typed :: "int16 \<times> val \<Rightarrow> bool" where
  "rs_timing_typed (i, x) \<longleftrightarrow> (i = 1 \<or> i = 2 \<longrightarrow> type_of x = T_I64) \<and> (i = 3 \<longrightarrow> type_of x = T_STRING)"

definition rs_timing_outcome :: "rs_errors \<Rightarrow> rs_timing_vars \<Rightarrow> stop + RsTiming" where
  "rs_timing_outcome errs = (\<lambda>(f_1, f_2, f_3). case f_1 of
     None \<Rightarrow> Inl (Throw (missing_required_field errs ''Timing.msgid''))
   | Some a \<Rightarrow> (case f_2 of
       None \<Rightarrow> Inl (Throw (missing_required_field errs ''Timing.nanosec''))
     | Some b \<Rightarrow> (case f_3 of
         None \<Rightarrow> Inl (Throw (missing_required_field errs ''Timing.source''))
| Some c \<Rightarrow> Inr \<lparr>rs_msgid = a, rs_nanosec = b, rs_source = c\<rparr>)))"

lemma yields_pure: "yields view v (pureP r) r v"
  by (simp add: yields_def pureP_def)

lemma rs_timing_new_pure: "rs_timing_new errs vars = pureP (rs_timing_outcome errs vars)"
  by (cases vars) (auto simp: rs_timing_new_def rs_timing_outcome_def verify_required_field_exists_def split: option.split)

definition rs_timing_value :: "RsTiming \<Rightarrow> val" where
  "rs_timing_value m = VStruct [(1, VI64 (rs_msgid m)), (2, VI64 (rs_nanosec m)), (3, VString (rs_source m))]"

context protocol_in
begin

lemma rs_handles_timing: "rs_handles rs_timing_typed (rs_timing_match prot) rs_timing_field"
proof (rule rs_handlesI)
  fix v :: "'a port" and i x ts and vars :: rs_timing_vars
  assume x: "rs_timing_typed (i, x)" "incoming v = encode x @ ts" "levels x \<le> in_depth v"
  obtain f_1 f_2 f_3 where vars: "vars = (f_1, f_2, f_3)"
    by (cases vars)
  show "yields view v (rs_timing_match prot (type_of x) i vars) (Inr (rs_timing_field (i, x) vars)) (v\<lparr>incoming := ts\<rparr>)"
    using x rs_skip_yields [OF x(2,3), of vars]
    by (cases x) (auto simp: vars rs_timing_match_def intro!: yields_bind [OF readI64] yields_bind [OF readString])
qed

lemma rs_timing_read_yields:
  assumes "incoming v = encode (VStruct fs) @ ts" and "levels (VStruct fs) \<le> in_depth v"
    and "\<forall>f \<in> set fs. rs_timing_typed f"
  shows "yields view v (rs_timing_read errs prot) (rs_timing_outcome errs (fold rs_timing_field fs (None, None, None)))
    (v\<lparr>incoming := ts\<rparr>)"
  unfolding rs_timing_read_def rs_timing_new_pure
  by (rule yields_bind [OF rs_read_fields_yields [OF rs_handles_timing assms(3,1,2)] yields_pure])

text \<open>A field of a known number and a wrong type: its case reads by the number, and so does not skip it.\<close>

lemma rs_timing_match_untyped:
  assumes "\<not> rs_timing_typed (i, x)"
    and "if i = 3 then yields view v (readString prot) (Inl e) v' else yields view v (readI64 prot) (Inl e) v'"
  shows "yields view v (rs_timing_match prot (type_of x) i vars) (Inl e) v'"
  using assms by (cases vars) (auto simp: rs_timing_match_def intro: yields_bind_stop split: if_splits)

lemma rs_timing_read_untyped:
  assumes "incoming v = encode (VStruct (gs @ (i, x) # hs)) @ ts" and "levels (VStruct (gs @ (i, x) # hs)) \<le> in_depth v"
    and "\<forall>f \<in> set gs. rs_timing_typed f" and "\<not> rs_timing_typed (i, x)"
  defines "v1 \<equiv> v\<lparr>incoming := encode x @ Field_end # encode_fields hs @ Field_stop # Struct_end # ts\<rparr>"
  assumes "if i = 3 then yields view v1 (readString prot) (Inl e) v' else yields view v1 (readI64 prot) (Inl e) v'"
  shows "yields view v (rs_timing_read errs prot) (Inl e) v'"
proof -
  let ?us = "encode x @ Field_end # encode_fields hs @ Field_stop # Struct_end # ts"
  let ?v = "v\<lparr>incoming := encode_fields gs @ Field_begin (type_of x) i # ?us\<rparr>"
  have b: "yields view v (readStructBegin prot) (Inr (cost Struct_begin)) ?v"
    using assms(1) by (intro readStructBegin) (simp add: encode_fields_append)
  have "yields view (?v\<lparr>incoming := ?us\<rparr>) (rs_timing_match prot (type_of x) i vars) (Inl e) v'" for vars
    using rs_timing_match_untyped [OF assms(4,6)] by (simp add: v1_def)
  then have "yields view ?v (loopP (rs_read_field prot (rs_timing_match prot)) (None, None, None)) (Inl e) v'"
    using assms(2,3) by (intro rs_read_loop_stops [OF rs_handles_timing, where us = ?us and gs = gs and x = x and i = i])
      (simp_all add: levels_fields_append)
  then show ?thesis
    unfolding rs_timing_read_def rs_read_fields_def
    by (intro yields_bind_stop yields_bind [OF b])
qed

lemma rs_timing_read_value:
  assumes "incoming v = encode (rs_timing_value m) @ ts" and "levels (rs_timing_value m) \<le> in_depth v"
  shows "yields view v (rs_timing_read errs prot) (Inr m) (v\<lparr>incoming := ts\<rparr>)"
  using rs_timing_read_yields [of v "[(1, VI64 (rs_msgid m)), (2, VI64 (rs_nanosec m)), (3, VString (rs_source m))]" ts errs] assms
  by (cases m) (simp add: rs_timing_value_def rs_timing_outcome_def)

lemma rs_args_read_value:
  assumes "incoming v = encode (VStruct [(1, rs_timing_value m)]) @ ts" and "levels (VStruct [(1, rs_timing_value m)]) \<le> in_depth v"
  shows "yields view v (rs_args_read errs prot) (Inr m) (v\<lparr>incoming := ts\<rparr>)"
proof -
  have "rs_handles (\<lambda>f. f = (1, rs_timing_value m)) (rs_args_match errs prot) (\<lambda>f vars. Some m)"
    by (rule rs_handlesI) (auto simp: rs_args_match_def intro!: yields_bind [OF rs_timing_read_value])
  from rs_read_fields_yields [OF this, of "[(1, rs_timing_value m)]" v ts None] assms
  have "yields view v (rs_read_fields prot (rs_args_match errs prot) None) (Inr (Some m)) (v\<lparr>incoming := ts\<rparr>)"
    by simp
  then show ?thesis
    unfolding rs_args_read_def by (rule yields_bind) (simp add: verify_required_field_exists_def yields_return)
qed

lemma rs_result_read_value:
  assumes "incoming v = encode (VStruct [(0, VI64 r)]) @ ts" and "levels (VStruct [(0, VI64 r)]) \<le> in_depth v"
  shows "yields view v (rs_result_read prot) (Inr (Some r)) (v\<lparr>incoming := ts\<rparr>)"
proof -
  have "rs_handles (\<lambda>f. f = (0, VI64 r)) (rs_result_match prot) (\<lambda>f vars. Some r)"
    by (rule rs_handlesI) (auto simp: rs_result_match_def intro!: yields_bind [OF readI64])
  from rs_read_fields_yields [OF this, of "[(0, VI64 r)]" v ts None] assms show ?thesis
    by (simp add: rs_result_read_def)
qed

end

section \<open>What the writers write\<close>

context protocol_out
begin

definition rs_writes :: "('w, unit) prog \<Rightarrow> token list \<Rightarrow> bool" where
  "rs_writes m ts \<longleftrightarrow> (\<forall>v. yields view v m (Inr ()) (v\<lparr>unflushed := unflushed v @ ts\<rparr>))"

lemma rs_writesD: "rs_writes m ts \<Longrightarrow> yields view v m (Inr ()) (v\<lparr>unflushed := unflushed v @ ts\<rparr>)"
  by (simp add: rs_writes_def)

lemma rs_writes_call [intro]:
  "rs_writes (call (writeStructBegin prot name)) [Struct_begin]" "rs_writes (call (writeStructEnd prot)) [Struct_end]"
  "t \<noteq> T_STOP \<Longrightarrow> rs_writes (call (writeFieldBegin prot name t i)) [Field_begin t i]"
  "rs_writes (call (writeFieldEnd prot)) [Field_end]" "rs_writes (call (writeFieldStop prot)) [Field_stop]"
  "rs_writes (call (writeI64 prot x)) [I64_token x]" "rs_writes (call (writeString prot s)) [String_token s]"
  unfolding rs_writes_def call_def
  by (auto intro: yields_bind [OF writeStructBegin] yields_bind [OF writeStructEnd] yields_bind [OF writeFieldBegin]
      yields_bind [OF writeFieldEnd] yields_bind [OF writeFieldStop] yields_bind [OF writeI64] yields_bind [OF writeString])

lemma rs_writes_calls: "list_all2 rs_writes ms tss \<Longrightarrow> rs_writes (rs_calls ms) (concat tss)"
proof (induction rule: list_all2_induct)
  case Nil
  then show ?case by (simp add: rs_writes_def yields_return)
next
  case (Cons m ms ts tss)
  have "yields view v (seqP m (rs_calls ms)) (Inr ()) (v\<lparr>unflushed := unflushed v @ ts @ concat tss\<rparr>)" for v
    using yields_seq [OF rs_writesD [OF Cons(1), of v] rs_writesD [OF Cons(3)]] by simp
  then show ?case
    by (simp add: rs_writes_def)
qed

lemma rs_writes_callsI: "list_all2 rs_writes ms tss \<Longrightarrow> ts = concat tss \<Longrightarrow> rs_writes (rs_calls ms) ts"
  by (simp add: rs_writes_calls)

lemma rs_timing_write_writes: "rs_writes (rs_timing_write prot m) (encode (rs_timing_value m))"
  unfolding rs_timing_write_def
  by (rule rs_writes_callsI [of _ "[[Struct_begin], [Field_begin T_I64 1], [I64_token (rs_msgid m)], [Field_end],
        [Field_begin T_I64 2], [I64_token (rs_nanosec m)], [Field_end],
        [Field_begin T_STRING 3], [String_token (rs_source m)], [Field_end], [Field_stop], [Struct_end]]"])
    (auto simp: rs_timing_value_def)

lemma rs_args_write_writes: "rs_writes (rs_args_write prot m) (encode (VStruct [(1, rs_timing_value m)]))"
  unfolding rs_args_write_def
  by (rule rs_writes_callsI [of _ "[[Struct_begin], [Field_begin T_STRUCT 1], encode (rs_timing_value m), [Field_end], [Field_stop],
        [Struct_end]]"]) (auto simp: rs_timing_write_writes, simp add: rs_timing_value_def)

lemma rs_result_write_writes: "rs_writes (rs_result_write prot (Some r)) (encode (VStruct [(0, VI64 r)]))"
  unfolding rs_result_write_def
  by (rule rs_writes_callsI [of _ "[[Struct_begin], [Field_begin T_I64 0], [I64_token r], [Field_end], [Field_stop], [Struct_end]]"])
    auto

end

end
