(* ===== verification/Rust_Interop.thy ===== *)
theory Rust_Interop
  imports Rust_Wire
begin

text \<open>
  The generated code in Rust and in C++ at the two ends of one connection: both readers on
  the same struct, a Rust client's call of a C++ server, and a C++ client's call of a Rust
  server. Both sides use the same protocol here; the programs as they are do not
  (\<open>bench.cpp\<close> uses the binary protocol, \<open>main.rs\<close> the compact one).
\<close>

definition cpp_timing :: "RsTiming \<Rightarrow> timing" where
  "cpp_timing m = \<lparr>msgid = rs_msgid m, nanosec = rs_nanosec m, source = rs_source m,
     isset = \<lparr>isset_msgid = True, isset_nanosec = True, isset_source = True\<rparr>\<rparr>"

definition rs_timing :: "timing \<Rightarrow> RsTiming" where
  "rs_timing t = \<lparr>rs_msgid = msgid t, rs_nanosec = nanosec t, rs_source = source t\<rparr>"

lemma same_values:
  "VStruct [(1, rs_timing_value m)] = args_value (cpp_timing m)"
  "VStruct [(1, rs_timing_value (rs_timing t))] = args_value t"
  "VStruct [(0, VI64 r)] = result_value \<lparr>success = r, result_isset_success = True\<rparr>"
  by (simp_all add: args_value_def timing_value_def rs_timing_value_def cpp_timing_def rs_timing_def result_value_def)

lemma timing_all_set_cpp [simp]: "timing_all_set (cpp_timing m) = cpp_timing m"
  by (simp add: timing_all_set_def cpp_timing_def)

section \<open>The two readers\<close>

text \<open>Rust's variables hold what C++'s flags say is set.\<close>

definition rs_vars_of :: "timing \<Rightarrow> rs_timing_vars" where
  "rs_vars_of t = (if isset_msgid (isset t) then Some (msgid t) else None,
     if isset_nanosec (isset t) then Some (nanosec t) else None,
     if isset_source (isset t) then Some (source t) else None)"

lemma rs_timing_field_vars:
  "rs_timing_typed f \<Longrightarrow> rs_timing_field f (rs_vars_of t) = rs_vars_of (timing_field f t)"
  by (cases "(f, t)" rule: timing_field.cases) (auto simp: rs_vars_of_def)

lemma fold_rs_timing_field:
  "\<forall>f \<in> set fs. rs_timing_typed f \<Longrightarrow> fold rs_timing_field fs (rs_vars_of t) = rs_vars_of (fold timing_field fs t)"
  by (induction fs arbitrary: t) (simp_all add: rs_timing_field_vars)

lemma rs_vars_of_ctor: "rs_vars_of timing_ctor = (None, None, None)"
  by (simp add: rs_vars_of_def timing_ctor_def timing_isset_ctor_def)

section \<open>Client and server\<close>

context connection
begin

lemma rs_message_yields:
  assumes "wr.rs_writes m ts"
  shows "yields view v (seqP (writeMessageBegin outp fname t q) (seqP m (seqP (writeMessageEnd outp) (flush outp)))) (Inr ())
    (v\<lparr>unflushed := [], flushed := flushed v @ unflushed v @ Message fname t q # ts @ [Message_end]\<rparr>)"
proof -
  let ?v1 = "v\<lparr>unflushed := unflushed v @ [Message fname t q]\<rparr>"
  let ?v2 = "v\<lparr>unflushed := unflushed v @ Message fname t q # ts\<rparr>"
  let ?v3 = "v\<lparr>unflushed := unflushed v @ Message fname t q # ts @ [Message_end]\<rparr>"
  have b: "yields view v (writeMessageBegin outp fname t q) (Inr ()) ?v1"
    by (rule wr.writeMessageBegin)
  have w: "yields view ?v1 m (Inr ()) ?v2"
    using wr.rs_writesD [OF assms, of ?v1] by simp
  have e: "yields view ?v2 (writeMessageEnd outp) (Inr ()) ?v3"
    using wr.writeMessageEnd [of ?v2] by simp
  have "yields view v (seqP (writeMessageBegin outp fname t q) (seqP m (seqP (writeMessageEnd outp) (flush outp)))) (Inr ())
      (?v3\<lparr>unflushed := [], flushed := flushed ?v3 @ unflushed ?v3\<rparr>)"
    by (rule yields_seq [OF b yields_seq [OF w yields_seq [OF e wr.flush]]])
  then show ?thesis
    by simp
qed

lemma rs_send_bench_yields:
  "yields view v (rs_send_bench \<lparr>i_prot_mut = inp, o_prot_mut = outp, sequence_number = q\<rparr> m) (Inr ())
    (v\<lparr>unflushed := [], flushed := flushed v @ unflushed v @
       Message ''bench'' T_CALL q # encode (args_value (cpp_timing m)) @ [Message_end]\<rparr>)"
  unfolding rs_send_bench_def Let_def BenchSyncClient.simps same_values(1) [symmetric]
  by (rule rs_message_yields [OF wr.rs_args_write_writes])

lemma rs_recv_bench_reply:
  assumes "incoming v = Message ''bench'' T_REPLY q # encode (VStruct [(0, VI64 r)]) @ Message_end # ts" and "2 \<le> in_depth v"
  shows "yields view v (rs_recv_bench errs \<lparr>i_prot_mut = inp, o_prot_mut = outp, sequence_number = q\<rparr>) (Inr r) (v\<lparr>incoming := ts\<rparr>)"
proof -
  let ?v1 = "v\<lparr>incoming := encode (VStruct [(0, VI64 r)]) @ Message_end # ts\<rparr>" and ?v2 = "v\<lparr>incoming := Message_end # ts\<rparr>"
  have b: "yields view v (readMessageBegin inp) (Inr (''bench'', T_REPLY, q)) ?v1"
    using assms(1) by (rule rd.readMessageBegin)
  have r: "yields view ?v1 (rs_result_read inp) (Inr (Some r)) ?v2"
    using rd.rs_result_read_value [of ?v1 r "Message_end # ts"] assms(2) by simp
  have m: "yields view ?v2 (readMessageEnd inp) (Inr ()) (v\<lparr>incoming := ts\<rparr>)"
    using rd.readMessageEnd [of ?v2 ts] by simp
  have "yields view ?v1 (bindP (rs_result_read inp) (\<lambda>result. seqP (readMessageEnd inp) (pureP (rs_ok_or result))))
      (Inr r) (v\<lparr>incoming := ts\<rparr>)"
    by (rule yields_bind [OF r], rule yields_seq [OF m]) (simp add: rs_ok_or_def yields_return)
  then show ?thesis
    unfolding rs_recv_bench_def Let_def BenchSyncClient.simps
    by (intro yields_bind [OF b]) (simp add: verify_def seqP_def)
qed

lemma rs_recv_bench_exception:
  assumes "incoming v = Message ''bench'' T_EXCEPTION q # Exception_token k m # Message_end # ts"
  shows "yields view v (rs_recv_bench errs \<lparr>i_prot_mut = inp, o_prot_mut = outp, sequence_number = q\<rparr>)
    (Inl (Throw (TApplicationException k m))) (v\<lparr>incoming := ts\<rparr>)"
proof -
  let ?v1 = "v\<lparr>incoming := Exception_token k m # Message_end # ts\<rparr>" and ?v2 = "v\<lparr>incoming := Message_end # ts\<rparr>"
  have b: "yields view v (readMessageBegin inp) (Inr (''bench'', T_EXCEPTION, q)) ?v1"
    using assms by (rule rd.readMessageBegin)
  have x: "yields view ?v1 (appexn_read inp) (Inr (k, m)) ?v2"
    using rd.appexn_read [of ?v1 k m] by simp
  have e: "yields view ?v2 (readMessageEnd inp) (Inr ()) (v\<lparr>incoming := ts\<rparr>)"
    using rd.readMessageEnd [of ?v2 ts] by simp
  have "yields view ?v1 (bindP (appexn_read inp) (\<lambda>(k, m). seqP (readMessageEnd inp) (stopP (Throw (TApplicationException k m)))))
      (Inl (Throw (TApplicationException k m))) (v\<lparr>incoming := ts\<rparr>)"
    by (rule yields_bind [OF x], unfold split, rule yields_seq [OF e], rule yields_stop)
  then show ?thesis
    unfolding rs_recv_bench_def Let_def BenchSyncClient.simps
    by (intro yields_bind [OF b]) (simp add: verify_def seqP_def)
qed

end

text \<open>A Rust handler that answers \<open>m\<close> with \<open>res\<close> from the state \<open>a\<close>, which it changes to \<open>a'\<close>, and the reply.\<close>

definition rs_serves :: "('w \<Rightarrow> 'a port) \<Rightarrow> (RsTiming \<Rightarrow> ('w, int64) prog) \<Rightarrow> RsTiming \<Rightarrow> 'a \<Rightarrow> exn + int64 \<Rightarrow> 'a \<Rightarrow> bool" where
  "rs_serves view h m a res a' \<longleftrightarrow> (\<forall>v. app v = a \<longrightarrow> yields view v (h m) (call_result res) (v\<lparr>app := a'\<rparr>))"

fun application_error :: "rs_errors \<Rightarrow> exn \<Rightarrow> app_kind \<times> string" where
  "application_error errs (TApplicationException k m) = (k, m)"
| "application_error errs e = (UNKNOWN, error_text errs e)"

fun rs_reply_body :: "rs_errors \<Rightarrow> exn + int64 \<Rightarrow> int32 \<Rightarrow> token list" where
  "rs_reply_body errs (Inl e) q = [Message ''bench'' T_EXCEPTION q,
     Exception_token (fst (application_error errs e)) (snd (application_error errs e)), Message_end]"
| "rs_reply_body errs (Inr r) q = Message ''bench'' T_REPLY q # encode (VStruct [(0, VI64 r)]) @ [Message_end]"

context connection
begin

lemma rs_write_error_yields:
  "yields view v (rs_write_error outp q k m) (Inr ())
    (v\<lparr>unflushed := [], flushed := flushed v @ unflushed v @ [Message ''bench'' T_EXCEPTION q, Exception_token k m, Message_end]\<rparr>)"
proof -
  have "wr.rs_writes (appexn_write outp k m) [Exception_token k m]"
    by (simp add: wr.rs_writes_def wr.appexn_write)
  from rs_message_yields [OF this] show ?thesis
    by (simp add: rs_write_error_def)
qed

lemma rs_process_bench_yields:
  assumes "incoming v = encode (VStruct [(1, rs_timing_value m)]) @ ts" and "3 \<le> in_depth v" and "unflushed v = []"
    and "rs_serves view h m (app v) res a'"
  shows "yields view v (rs_process_bench errs h q inp outp) (Inr ())
    (v\<lparr>incoming := ts, flushed := flushed v @ rs_reply_body errs res q, app := a'\<rparr>)"
proof -
  let ?v1 = "v\<lparr>incoming := ts\<rparr>" and ?v2 = "v\<lparr>incoming := ts, app := a'\<rparr>"
  have r: "yields view v (rs_args_read errs inp) (Inr m) ?v1"
    by (rule rd.rs_args_read_value [OF assms(1)]) (use assms(2) in \<open>simp add: rs_timing_value_def\<close>)
  have h: "yields view ?v1 (h m) (call_result res) ?v2"
    using assms(4) unfolding rs_serves_def by simp
  show ?thesis
  proof (cases res)
    case (Inl e)
    have c: "yields view ?v1 (catchP (bindP (h m) (\<lambda>r. returnP (Inr r))) (\<lambda>e. returnP (Inl e)))
        (Inr (Inl e :: exn + int64)) ?v2"
      by (rule yields_catch_throw [OF yields_bind_stop yields_return]) (use h in \<open>simp add: Inl\<close>)
    have "yields view ?v2 (rs_write_error outp q (fst (application_error errs e)) (snd (application_error errs e))) (Inr ())
        (v\<lparr>incoming := ts, flushed := flushed v @ rs_reply_body errs res q, app := a'\<rparr>)"
      using rs_write_error_yields [of ?v2 q "fst (application_error errs e)" "snd (application_error errs e)"] assms(3)
      by (cases v) (simp add: Inl)
    then show ?thesis
      unfolding rs_process_bench_def
      by (intro yields_bind [OF r] yields_bind [OF c]) (cases e, simp_all)
  next
    case (Inr x)
    have c: "yields view ?v1 (catchP (bindP (h m) (\<lambda>r. returnP (Inr r))) (\<lambda>e. returnP (Inl e)))
        (Inr (Inr x :: exn + int64)) ?v2"
      using h by (intro yields_catch yields_bind [OF _ yields_return]) (simp add: Inr)
    have "yields view ?v2 (seqP (writeMessageBegin outp ''bench'' T_REPLY q) (seqP (rs_result_write outp (Some x))
        (seqP (writeMessageEnd outp) (flush outp)))) (Inr ())
        (v\<lparr>incoming := ts, flushed := flushed v @ rs_reply_body errs res q, app := a'\<rparr>)"
      using rs_message_yields [OF wr.rs_result_write_writes [of x], of ?v2 "''bench''" T_REPLY q] assms(3)
      by (cases v) (simp add: Inr)
    then show ?thesis
      unfolding rs_process_bench_def
      by (intro yields_bind [OF r] yields_bind [OF c]) simp
  qed
qed

lemma rs_process_call_yields:
  assumes "incoming v = Message ''bench'' T_CALL q # encode (VStruct [(1, rs_timing_value m)]) @ ts" and "3 \<le> in_depth v"
    and "unflushed v = []" and "rs_serves view h m (app v) res a'"
    and "\<And>v. yields view v (handle (''bench'', T_CALL, q) (Inr ())) (Inr ()) v"
  shows "yields view v (rs_process_call errs handle h inp outp) (Inr ())
    (v\<lparr>incoming := ts, flushed := flushed v @ rs_reply_body errs res q, app := a'\<rparr>)"
proof -
  let ?v1 = "v\<lparr>incoming := encode (VStruct [(1, rs_timing_value m)]) @ ts\<rparr>"
  let ?v2 = "v\<lparr>incoming := ts, flushed := flushed v @ rs_reply_body errs res q, app := a'\<rparr>"
  have b: "yields view v (readMessageBegin inp) (Inr (''bench'', T_CALL, q)) ?v1"
    using assms(1) by (rule rd.readMessageBegin)
  have p: "yields view ?v1 (rs_process_bench errs h q inp outp) (Inr ()) ?v2"
    using rs_process_bench_yields [of ?v1 m ts h res a' errs q] assms(2-4) by simp
  have "yields view ?v1 (catchP (seqP (rs_process_bench errs h q inp outp) (returnP (Inr ()))) (\<lambda>e. returnP (Inl e)))
      (Inr (Inr () :: exn + unit)) ?v2"
    by (rule yields_catch [OF yields_seq [OF p yields_return]])
  then show ?thesis
    unfolding rs_process_call_def
    by (intro yields_bind [OF b]) (simp, rule yields_bind, assumption, simp add: assms(5))
qed

end

section \<open>Properties\<close>

text \<open>
  C27: the generated readers of \<open>Timing\<close> in Rust and of \<open>timing\<close> in C++ on the same struct,
  with any fields in any order, unknown and repeated ones. C++ consumes exactly the struct,
  whatever the fields. If the fields numbered 1 to 3 have the types of the definition, so
  does Rust: when C++ has found all three members, Rust returns the same ones; when a flag
  is not set, Rust returns the error for the first missing member, while C++ goes on with a
  default (the definition has no \<open>required\<close>). They also differ on a known number with a
  wrong type: C++ looks at the type and skips the field, Rust does not and reads the field
  by its number; if that read fails on the first such field, so does the Rust reader, with
  that read's error and at that place.
\<close>

theorem rust_timing_reader:
  assumes "protocol_in prot view cost" and "incoming v = encode (VStruct fs) @ ts" and "levels (VStruct fs) \<le> in_depth v"
  shows "\<exists>t n. yields view v (timing_read prot timing_ctor) (Inr (t, n)) (v\<lparr>incoming := ts\<rparr>) \<and>
    ((\<forall>f \<in> set fs. rs_timing_typed f) \<longrightarrow> yields view v (rs_timing_read errs prot)
      (if \<not> isset_msgid (isset t) then Inl (Throw (missing_required_field errs ''Timing.msgid''))
       else if \<not> isset_nanosec (isset t) then Inl (Throw (missing_required_field errs ''Timing.nanosec''))
       else if \<not> isset_source (isset t) then Inl (Throw (missing_required_field errs ''Timing.source''))
       else Inr (rs_timing t)) (v\<lparr>incoming := ts\<rparr>)) \<and>
    (\<forall>gs i x hs v1 e v'. fs = gs @ (i, x) # hs \<longrightarrow> (\<forall>f \<in> set gs. rs_timing_typed f) \<longrightarrow> \<not> rs_timing_typed (i, x) \<longrightarrow>
       v1 = v\<lparr>incoming := encode x @ Field_end # encode_fields hs @ Field_stop # Struct_end # ts\<rparr> \<longrightarrow>
       (if i = 3 then yields view v1 (readString prot) (Inl e) v' else yields view v1 (readI64 prot) (Inl e) v') \<longrightarrow>
       yields view v (rs_timing_read errs prot) (Inl e) v')"
proof -
  let ?t = "fold timing_field fs timing_ctor"
  have "yields view v (rs_timing_read errs prot) (rs_timing_outcome errs (rs_vars_of ?t)) (v\<lparr>incoming := ts\<rparr>)"
    if "\<forall>f \<in> set fs. rs_timing_typed f"
    using protocol_in.rs_timing_read_yields [OF assms that, of errs] fold_rs_timing_field [OF that, of timing_ctor]
    by (simp add: rs_vars_of_ctor)
  moreover have "rs_timing_outcome errs (rs_vars_of ?t) =
      (if \<not> isset_msgid (isset ?t) then Inl (Throw (missing_required_field errs ''Timing.msgid''))
       else if \<not> isset_nanosec (isset ?t) then Inl (Throw (missing_required_field errs ''Timing.nanosec''))
       else if \<not> isset_source (isset ?t) then Inl (Throw (missing_required_field errs ''Timing.source''))
       else Inr (rs_timing ?t))"
    by (simp add: rs_timing_outcome_def rs_vars_of_def rs_timing_def)
  moreover have "yields view v (rs_timing_read errs prot) (Inl e) v'"
    if "fs = gs @ (i, x) # hs" "\<forall>f \<in> set gs. rs_timing_typed f" "\<not> rs_timing_typed (i, x)"
      "v1 = v\<lparr>incoming := encode x @ Field_end # encode_fields hs @ Field_stop # Struct_end # ts\<rparr>"
      "if i = 3 then yields view v1 (readString prot) (Inl e) v' else yields view v1 (readI64 prot) (Inl e) v'"
    for gs i x hs v1 e v'
    using protocol_in.rs_timing_read_untyped [OF assms(1) assms(2,3) [unfolded that(1)] that(2,3) that(5) [unfolded that(4)]] .
  ultimately show ?thesis
    using protocol_in.timing_read_yields [OF assms, of timing_ctor]
    by (intro exI [of _ ?t] exI [of _ "costs cost (encode (VStruct fs))"]) auto
qed

text \<open>The library's errors, for the witnesses.\<close>

definition some_errors :: rs_errors where
  "some_errors = \<lparr>missing_required_field = (\<lambda>name. Library_exception name),
     unexpected_sequence_number = (\<lambda>e a. Library_exception ''sequence number''),
     unexpected_service_call = (\<lambda>e a. Library_exception ''service call''),
     unexpected_message_type = (\<lambda>e a. Library_exception ''message type''), error_text = (\<lambda>e. ''error'')\<rparr>"

text \<open>A struct without the first member, and one whose second member is a string: C++ reads the second, too.\<close>

theorem rust_timing_reader_witness:
  "yields (\<lambda>w. w) (port_with (encode (VStruct [(2, VI64 (i64 7)), (9, VString ''x''), (3, VString ''y'')])))
     (rs_timing_read some_errors (memory_protocol unit_cost)) (Inl (Throw (Library_exception ''Timing.msgid''))) (port_with []) \<and>
   yields (\<lambda>w. w) (port_with (encode (VStruct [(1, VI64 (i64 7)), (2, VString ''x'')])))
     (rs_timing_read some_errors (memory_protocol unit_cost)) (Inl (Throw (TProtocolException INVALID_DATA)))
     (port_with [String_token ''x'', Field_end, Field_stop, Struct_end]) \<and>
   (\<exists>t n. yields (\<lambda>w. w) (port_with (encode (VStruct [(1, VI64 (i64 7)), (2, VString ''x'')])))
     (timing_read (memory_protocol unit_cost) timing_ctor) (Inr (t, n)) (port_with []))"
proof (intro conjI)
  let ?fs = "[(2, VI64 (i64 7)), (9, VString ''x''), (3, VString ''y'')]"
  obtain t n where tn: "yields (\<lambda>w. w) (port_with (encode (VStruct ?fs))) (timing_read (memory_protocol unit_cost) timing_ctor) (Inr (t, n)) (port_with [])"
    "yields (\<lambda>w. w) (port_with (encode (VStruct ?fs))) (rs_timing_read some_errors (memory_protocol unit_cost))
      (if \<not> isset_msgid (isset t) then Inl (Throw (missing_required_field some_errors ''Timing.msgid''))
       else if \<not> isset_nanosec (isset t) then Inl (Throw (missing_required_field some_errors ''Timing.nanosec''))
       else if \<not> isset_source (isset t) then Inl (Throw (missing_required_field some_errors ''Timing.source''))
       else Inr (rs_timing t)) (port_with [])"
    using rust_timing_reader [OF memory_protocol_in, of "port_with (encode (VStruct ?fs))" ?fs "[]" unit_cost some_errors] by auto
  have "yields (\<lambda>w. w) (port_with (encode (VStruct ?fs))) (timing_read (memory_protocol unit_cost) timing_ctor)
      (Inr (fold timing_field ?fs timing_ctor, costs unit_cost (encode (VStruct ?fs)))) (port_with [])"
    using protocol_in.timing_read_yields [OF memory_protocol_in, of "port_with (encode (VStruct ?fs))" ?fs "[]" unit_cost timing_ctor] by simp
  with tn(1) have "t = fold timing_field ?fs timing_ctor"
    by (simp add: yields_def)
  with tn(2) show "yields (\<lambda>w. w) (port_with (encode (VStruct ?fs)))
      (rs_timing_read some_errors (memory_protocol unit_cost)) (Inl (Throw (Library_exception ''Timing.msgid''))) (port_with [])"
    by (simp add: timing_ctor_def timing_isset_ctor_def some_errors_def)
next
  let ?fs = "[(1, VI64 (i64 7)), (2, VString ''x'')]"
  let ?v1 = "port_with [String_token ''x'', Field_end, Field_stop, Struct_end]"
  have fails: "yields (\<lambda>w. w) ?v1 (readI64 (memory_protocol unit_cost)) (Inl (Throw (TProtocolException INVALID_DATA))) ?v1"
    by (simp add: yields_def memory_protocol_def take_token_def)
  obtain t n where tn: "yields (\<lambda>w. w) (port_with (encode (VStruct ?fs)))
      (timing_read (memory_protocol unit_cost) timing_ctor) (Inr (t, n)) (port_with [])"
    and untyped: "\<forall>gs i x hs v1 e v'. ?fs = gs @ (i, x) # hs \<longrightarrow> (\<forall>f \<in> set gs. rs_timing_typed f) \<longrightarrow> \<not> rs_timing_typed (i, x) \<longrightarrow>
       v1 = (port_with (encode (VStruct ?fs)))\<lparr>incoming := encode x @ Field_end # encode_fields hs @ Field_stop # Struct_end # []\<rparr> \<longrightarrow>
       (if i = 3 then yields (\<lambda>w. w) v1 (readString (memory_protocol unit_cost)) (Inl e) v'
        else yields (\<lambda>w. w) v1 (readI64 (memory_protocol unit_cost)) (Inl e) v') \<longrightarrow>
       yields (\<lambda>w. w) (port_with (encode (VStruct ?fs))) (rs_timing_read some_errors (memory_protocol unit_cost)) (Inl e) v'"
    using rust_timing_reader [OF memory_protocol_in, of "port_with (encode (VStruct ?fs))" ?fs "[]" unit_cost some_errors] by auto
  show "\<exists>t n. yields (\<lambda>w. w) (port_with (encode (VStruct ?fs)))
      (timing_read (memory_protocol unit_cost) timing_ctor) (Inr (t, n)) (port_with [])"
    using tn by blast
  show "yields (\<lambda>w. w) (port_with (encode (VStruct ?fs)))
      (rs_timing_read some_errors (memory_protocol unit_cost)) (Inl (Throw (TProtocolException INVALID_DATA))) ?v1"
    by (rule untyped [rule_format, of "[(1, VI64 (i64 7))]" 2 "VString ''x''" "[]" ?v1]) (simp_all add: fails)
qed

text \<open>
  C22: a Rust client calls a C++ server, at any sequence number. At the largest one a build
  with overflow checks panics before it sends anything. Otherwise the client's call message,
  under its next sequence number (which wraps around in a build without the checks), is
  consumed by \<open>dispatchCall\<close>, which runs the handler once on the client's message with all
  flags set and replies under the same number; the Rust client accepts that reply and
  returns the handler's answer, or the error that carries the text of its exception.
\<close>

theorem rust_client_cpp_server:
  fixes k :: int32
  assumes "connection ci co cview cost" and "connection si so sview cost'" and "observes sview p ev"
    and "map_of (processMap p) ''bench'' = Some Process_bench"
    and "serves sview (iface p) (cpp_timing m) (before_call ev a) res a'"
  defines "start \<equiv> BenchSyncClient_new ci co\<lparr>sequence_number := k\<rparr>"
  shows "if checks \<and> sint k = 2 ^ 31 - 1 then rs_client_bench checks errs start m = None
    else \<exists>client call reply.
    rs_client_bench checks errs start m = Some (client, seqP (rs_send_bench client m) (rs_recv_bench errs client)) \<and>
    client = start\<lparr>sequence_number := k + 1\<rparr> \<and>
    (\<forall>v. unflushed v = [] \<longrightarrow>
       yields cview v (rs_send_bench client m) (Inr ()) (v\<lparr>flushed := flushed v @ Message ''bench'' T_CALL (k + 1) # call\<rparr>)) \<and>
    (\<forall>v ts. incoming v = call @ ts \<longrightarrow> 3 \<le> in_depth v \<longrightarrow> unflushed v = [] \<longrightarrow> app v = a \<longrightarrow>
       yields sview v (dispatchCall what p si so ''bench'' (k + 1) c) (Inr True)
         (v\<lparr>incoming := ts, flushed := flushed v @ reply, app := after_call ev res a'\<rparr>)) \<and>
    (\<forall>v ts. incoming v = reply @ ts \<longrightarrow> 2 \<le> in_depth v \<longrightarrow>
       yields cview v (rs_recv_bench errs client)
         (case res of Inr r \<Rightarrow> Inr r | Inl e \<Rightarrow> Inl (Throw (TApplicationException UNKNOWN (what e))))
         (v\<lparr>incoming := ts\<rparr>))"
proof (cases "checks \<and> sint k = 2 ^ 31 - 1")
  case True
  then show ?thesis
    by (simp add: rs_client_bench_def increment_sequence_number_def start_def)
next
  case False
  obtain fs where fs: "args_value (cpp_timing m) = VStruct fs"
    by (simp add: args_value_def)
  let ?call = "encode (VStruct fs) @ [Message_end]" and ?reply = "reply_body what res (k + 1)"
  let ?client = "start\<lparr>sequence_number := k + 1\<rparr>"
  have client: "?client = \<lparr>i_prot_mut = ci, o_prot_mut = co, sequence_number = k + 1\<rparr>"
    by (simp add: start_def BenchSyncClient_new_def)
  have incremented: "rs_client_bench checks errs start m =
      Some (?client, seqP (rs_send_bench ?client m) (rs_recv_bench errs ?client))"
    using False by (auto simp: rs_client_bench_def increment_sequence_number_def start_def)
  have "yields cview v (rs_send_bench ?client m) (Inr ()) (v\<lparr>flushed := flushed v @ Message ''bench'' T_CALL (k + 1) # ?call\<rparr>)"
    if "unflushed v = []" for v
    using connection.rs_send_bench_yields [OF assms(1), of v "k + 1" m] that by (cases v) (simp add: client fs)
  moreover have "yields sview v (dispatchCall what p si so ''bench'' (k + 1) c) (Inr True)
      (v\<lparr>incoming := ts, flushed := flushed v @ ?reply, app := after_call ev res a'\<rparr>)"
    if "incoming v = ?call @ ts" "3 \<le> in_depth v" "unflushed v = []" "app v = a" for v ts
    using that assms(2-5) fold_args_value [OF fs] levels_values(2) [of "cpp_timing m"]
    by (intro connection.dispatchCall_bench [of si so sview cost' p ev v fs ts]) (simp_all add: fs)
  moreover have "yields cview v (rs_recv_bench errs ?client)
      (case res of Inr r \<Rightarrow> Inr r | Inl e \<Rightarrow> Inl (Throw (TApplicationException UNKNOWN (what e)))) (v\<lparr>incoming := ts\<rparr>)"
    if "incoming v = ?reply @ ts" "2 \<le> in_depth v" for v ts
    using that connection.rs_recv_bench_exception [OF assms(1), of v "k + 1"]
      connection.rs_recv_bench_reply [OF assms(1), of v "k + 1" _ ts errs]
    by (cases res) (simp_all add: client result_value_def)
  ultimately show ?thesis
    unfolding if_not_P [OF False]
    by (intro exI [of _ ?client] exI [of _ ?call] exI [of _ ?reply]) (simp add: incremented)
qed

theorem rust_client_cpp_server_witness:
  "(\<exists>reply. yields (\<lambda>w. w) (port_with reply)
     (rs_recv_bench some_errors \<lparr>i_prot_mut = memory_protocol unit_cost, o_prot_mut = memory_protocol unit_cost, sequence_number = 1\<rparr>)
     (Inr (i64 0)) (port_with [])) \<and>
   rs_client_bench True some_errors (BenchSyncClient_new (memory_protocol unit_cost :: unit port tprotocol)
     (memory_protocol unit_cost)\<lparr>sequence_number := 0x7fffffff\<rparr>) (rs_main_msg 0 0) = None"
proof
  have serves: "serves (\<lambda>w. w) (iface (BenchProcessor_ctor BenchNull_bench)) (cpp_timing (rs_main_msg 0 0))
      (before_call (\<lambda>e a. a) ()) (Inr (i64 0)) ()"
    by (simp add: serves_def BenchProcessor_ctor_def BenchNull_bench_def yields_return app_unit)
  have map: "map_of (processMap (BenchProcessor_ctor BenchNull_bench)) ''bench'' = Some Process_bench"
    by (simp add: BenchProcessor_ctor_def)
  note call = rust_client_cpp_server [OF unit_connection unit_connection observes_ctor map serves,
        where what = "\<lambda>e. []" and c = 0 and errs = some_errors and checks = True]
  obtain reply where "\<forall>(v :: unit port) ts. incoming v = reply @ ts \<longrightarrow> 2 \<le> in_depth v \<longrightarrow>
      yields (\<lambda>w. w) v (rs_recv_bench some_errors (BenchSyncClient_new (memory_protocol unit_cost) (memory_protocol unit_cost)
          \<lparr>sequence_number := 0, sequence_number := 0 + 1\<rparr>)) (Inr (i64 0)) (v\<lparr>incoming := ts\<rparr>)"
    using call [where k = 0] unfolding sum.case by simp blast
  from this [rule_format, of "port_with reply" "[]"]
  show "\<exists>reply. yields (\<lambda>w. w) (port_with reply)
     (rs_recv_bench some_errors \<lparr>i_prot_mut = memory_protocol unit_cost, o_prot_mut = memory_protocol unit_cost, sequence_number = 1\<rparr>)
     (Inr (i64 0)) (port_with [])"
    by (intro exI [of _ reply]) (simp add: BenchSyncClient_new_def)
  show "rs_client_bench True some_errors (BenchSyncClient_new (memory_protocol unit_cost :: unit port tprotocol)
     (memory_protocol unit_cost)\<lparr>sequence_number := 0x7fffffff\<rparr>) (rs_main_msg 0 0) = None"
    using call [where k = "0x7fffffff"] by simp
qed

text \<open>
  C23: a C++ client calls a Rust server: \<open>process\<close> reads the call, runs the handler once on
  the client's members and replies; it leaves the end of the call message unread, which is
  why the marker must take no room on the wire. The reply makes the C++ client return the
  handler's answer, or throw a \<open>TApplicationException\<close>: the handler's own kind and message
  when its error is one, otherwise \<open>UNKNOWN\<close> with the error's text.
\<close>

theorem cpp_client_rust_server:
  assumes "connection ci co cview cost" and "connection si so sview cost'"
    and "rs_serves sview h (rs_timing m) a res a'"
    and "\<forall>v. yields sview v (handle (''bench'', T_CALL, 0) (Inr ())) (Inr ()) v"
  shows "\<exists>call reply.
    (\<forall>v. 2 \<le> out_depth v \<longrightarrow> unflushed v = [] \<longrightarrow>
       yields cview v (BenchClient_send_bench \<lparr>iprot = ci, oprot = co\<rparr> m) (Inr ()) (v\<lparr>flushed := flushed v @ call @ [Message_end]\<rparr>)) \<and>
    (\<forall>v ts. incoming v = call @ Message_end # ts \<longrightarrow> 3 \<le> in_depth v \<longrightarrow> unflushed v = [] \<longrightarrow> app v = a \<longrightarrow>
       yields sview v (rs_process_call errs handle h si so) (Inr ())
         (v\<lparr>incoming := Message_end # ts, flushed := flushed v @ reply, app := a'\<rparr>)) \<and>
    (\<forall>v ts. incoming v = reply @ ts \<longrightarrow> 2 \<le> in_depth v \<longrightarrow>
       yields cview v (BenchClient_recv_bench \<lparr>iprot = ci, oprot = co\<rparr>)
         (case res of Inr r \<Rightarrow> Inr r
          | Inl (TApplicationException k msg) \<Rightarrow> Inl (Throw (TApplicationException k msg))
          | Inl e \<Rightarrow> Inl (Throw (TApplicationException UNKNOWN (error_text errs e)))) (v\<lparr>incoming := ts\<rparr>))"
proof -
  let ?call = "Message ''bench'' T_CALL 0 # encode (VStruct [(1, rs_timing_value (rs_timing m))])"
  let ?reply = "rs_reply_body errs res 0"
  have "yields cview v (BenchClient_send_bench \<lparr>iprot = ci, oprot = co\<rparr> m) (Inr ()) (v\<lparr>flushed := flushed v @ ?call @ [Message_end]\<rparr>)"
    if "2 \<le> out_depth v" "unflushed v = []" for v
    using connection.send_bench_yields [OF assms(1) that(1), of m] that(2) unfolding same_values(2) by (cases v) simp
  moreover have "yields sview v (rs_process_call errs handle h si so) (Inr ())
      (v\<lparr>incoming := Message_end # ts, flushed := flushed v @ ?reply, app := a'\<rparr>)"
    if "incoming v = ?call @ Message_end # ts" "3 \<le> in_depth v" "unflushed v = []" "app v = a" for v ts
    using that assms(3,4)
    by (intro connection.rs_process_call_yields [OF assms(2), where m = "rs_timing m"]) simp_all
  moreover have "yields cview v (BenchClient_recv_bench \<lparr>iprot = ci, oprot = co\<rparr>)
      (case res of Inr r \<Rightarrow> Inr r
       | Inl (TApplicationException k msg) \<Rightarrow> Inl (Throw (TApplicationException k msg))
       | Inl e \<Rightarrow> Inl (Throw (TApplicationException UNKNOWN (error_text errs e)))) (v\<lparr>incoming := ts\<rparr>)"
    if "incoming v = ?reply @ ts" "2 \<le> in_depth v" for v ts
  proof (cases res)
    case (Inl e)
    with that show ?thesis
      using connection.recv_bench_exception [OF assms(1), of v "''bench''" 0] by (cases e) simp_all
  next
    case (Inr r)
    have "reply_outcome [(0, VI64 r)] = Inr r"
      by (simp add: reply_outcome_def)
    with that Inr show ?thesis
      using connection.recv_bench_reply [OF assms(1), of v 0 "[(0, VI64 r)]" ts] by simp
  qed
  ultimately show ?thesis
    by (intro exI [of _ ?call] exI [of _ ?reply]) simp
qed

theorem cpp_client_rust_server_witness:
  "\<exists>reply. yields (\<lambda>w. w) (port_with reply) (BenchClient_recv_bench (BenchClient_ctor (memory_protocol unit_cost)))
     (Inl (Throw (TApplicationException MISSING_RESULT ''no answer''))) (port_with [])"
proof -
  let ?e = "TApplicationException MISSING_RESULT ''no answer''"
  have serves: "rs_serves (\<lambda>w. w) (\<lambda>m. stopP (Throw ?e)) (rs_timing timing_ctor) () (Inl ?e) ()"
    by (simp add: rs_serves_def app_unit yields_stop)
  have handled: "\<forall>v :: unit port. yields (\<lambda>w. w) v (returnP ()) (Inr ()) v"
    by (simp add: yields_return)
  obtain reply where "\<forall>(v :: unit port) ts. incoming v = reply @ ts \<longrightarrow> 2 \<le> in_depth v \<longrightarrow>
      yields (\<lambda>w. w) v (BenchClient_recv_bench \<lparr>iprot = memory_protocol unit_cost, oprot = memory_protocol unit_cost\<rparr>)
        (Inl (Throw ?e)) (v\<lparr>incoming := ts\<rparr>)"
    using cpp_client_rust_server [OF unit_connection unit_connection serves, where handle = "\<lambda>ident res. returnP ()", OF handled,
        where errs = some_errors]
    unfolding sum.case exn.case by (elim exE conjE) (rule that)
  from this [rule_format, of "port_with reply" "[]"] show ?thesis
    by (intro exI [of _ reply]) (simp add: BenchClient_ctor_def)
qed

end
