(* ===== verification/Grpc_Bench.thy ===== *)
theory Grpc_Bench
  imports Latency Chain
begin

text \<open>
  \<open>grpc-bench/gbench/bench.cpp\<close>: the relay and sink services of the gRPC benchmark, the
  addresses that connect them, and the client loop of \<open>main\<close>. The messages are those of
  \<open>timing.proto\<close>; a stub's call is a parameter of the relay, and \<open>stub_call\<close> composes the
  services the way the addresses of \<open>main\<close> connect them.
\<close>

section \<open>Messages and services\<close>

record Request =
  req_msgid :: int64
  req_nanosec :: int64
  req_source :: string

record Response =
  ack :: int64

text \<open>Fields of a fresh message have their proto3 defaults.\<close>

definition Request_new :: Request where
  "Request_new = \<lparr>req_msgid = i64 0, req_nanosec = i64 0, req_source = []\<rparr>"

definition Response_new :: Response where
  "Response_new = \<lparr>ack = i64 0\<rparr>"

text \<open>\<open>grpc::Status\<close>: \<open>OK\<close>, or an error with its message.\<close>

datatype Status = Status_OK | Status_error string

definition grpc_kRelayPortStart :: int where
  "grpc_kRelayPortStart = 5000"

definition grpc_kNumRelays :: int where
  "grpc_kNumRelays = 20"

text \<open>
  A service has its port; a relay also has a stub for the channel to the next port. Running
  a service listens on its address.
\<close>

record BenchServiceBase =
  port :: int

record Relay = BenchServiceBase +
  stub_target :: string

definition BenchServiceBase_ctor :: "int \<Rightarrow> BenchServiceBase" where
  "BenchServiceBase_ctor i = \<lparr>port = i + grpc_kRelayPortStart\<rparr>"

definition Relay_ctor :: "int \<Rightarrow> Relay" where
  "Relay_ctor i =
     (let base = BenchServiceBase_ctor i
      in \<lparr>port = port base, stub_target = ''127.0.0.1:'' @ to_string (port base + 1)\<rparr>)"

definition Sink_ctor :: "int \<Rightarrow> BenchServiceBase" where
  "Sink_ctor i = BenchServiceBase_ctor i"

definition run_address :: "('a) BenchServiceBase_scheme \<Rightarrow> string" where
  "run_address s = ''0.0.0.0:'' @ to_string (port s)"

text \<open>
  The relay sets its own answer first, forwards a copy of the request with its port as the
  source, and returns \<open>OK\<close> without looking at the status of the call.
\<close>

definition grpc_relay_copy :: "int \<Rightarrow> Request \<Rightarrow> Request" where
  "grpc_relay_copy p request =
     (let copy = Request_new;
          copy = copy\<lparr>req_msgid := req_msgid request\<rparr>;
          copy = copy\<lparr>req_nanosec := req_nanosec request\<rparr>;
          copy = copy\<lparr>req_source := ''relay '' @ to_string p\<rparr>
      in copy)"

definition Relay_bench ::
    "Relay \<Rightarrow> (string \<Rightarrow> Request \<Rightarrow> ('w, Status \<times> Response) prog) \<Rightarrow> Request \<Rightarrow> ('w, Status \<times> Response) prog" where
  "Relay_bench relay stub_bench request =
     (let response = Response_new\<lparr>ack := req_msgid request\<rparr>;
          copy = grpc_relay_copy (port relay) request
      in bindP (stub_bench (stub_target relay) copy) (\<lambda>(status, rsp).
         returnP (Status_OK, response)))"

section \<open>The sink\<close>

definition Sink_print_stats :: "iteration \<Rightarrow> (sink_state, unit) prog" where
  "Sink_print_stats iter =
     bindP (getP (\<lambda>s. sort (iter (sink_data s)))) (\<lambda>array.
     let p50_index = int_of_size (size_of (length array) div 2);
         p90_index = int_of_size (size_of (length array) * 9 div 10)
     in bindP (pureP (vector_at array p50_index)) (\<lambda>p50.
        bindP (pureP (div_i64 p50 (i64 1000))) (\<lambda>p50_us.
        bindP (pureP (vector_at array p90_index)) (\<lambda>p90.
        bindP (pureP (div_i64 p90 (i64 1000))) (\<lambda>p90_us.
        print (endl @ ''Stats with '' @ show_nat (length array) @ '' data points, ns/hop:'' @
          endl @ ''P50 = '' @ to_string (ival p50_us) @ ''us, P90 = '' @
          to_string (ival p90_us) @ ''us'' @ endl @ endl))))))"

definition Sink_bench :: "iteration \<Rightarrow> int64 \<Rightarrow> Request \<Rightarrow> (sink_state, Status \<times> Response) prog" where
  "Sink_bench iter now request =
     (let response = Response_new\<lparr>ack := req_msgid request\<rparr>
      in bindP (pureP (sub_i64 now (req_nanosec request))) (\<lambda>elapsed.
         bindP (pureP (div_i64 elapsed (i64 (grpc_kNumRelays + 1)))) (\<lambda>nanosec_per_hop.
         seqP (insert_sample nanosec_per_hop) (
         seqP (print (''nano seconds per hop: '' @ to_string (ival nanosec_per_hop) @ endl)) (
         bindP (getP (\<lambda>s. size (sink_data s))) (\<lambda>n.
         seqP (if 1000 \<le> n then seqP (Sink_print_stats iter) (stopP (Exit 0)) else returnP ()) (
         returnP (Status_OK, response))))))))"

definition grpc_line :: "int64 \<Rightarrow> string" where
  "grpc_line x = ''nano seconds per hop: '' @ to_string (ival x) @ endl"

definition sink_answer :: "Request \<Rightarrow> Status \<times> Response" where
  "sink_answer request = (Status_OK, \<lparr>ack = req_msgid request\<rparr>)"

lemma Sink_print_stats_report:
  assumes "enumerates iter" and "sink_data s \<noteq> {#}" and "size (sink_data s) < 2 ^ 27"
  shows "Sink_print_stats iter s = Some (Inr (), s\<lparr>cout := cout s @ stats_report (sink_data s)\<rparr>)"
  using assms
  by (simp add: Sink_print_stats_def prog_defs report_simps print_def stats_report_def stats_text_def)

lemma grpc_hops: "i64 (grpc_kNumRelays + 1) = i64 21" "ival (i64 21) = 21"
  by (simp_all add: grpc_kNumRelays_def ival_i64 in_i64_def)

lemma Sink_bench_cases:
  assumes "enumerates iter" and "size (sink_data s) < 2 ^ 26"
  shows "Sink_bench iter now m s =
    sink_outcome grpc_line (sink_answer m) (per_hop (i64 (grpc_kNumRelays + 1)) now (req_nanosec m)) s"
proof (cases "per_hop (i64 (grpc_kNumRelays + 1)) now (req_nanosec m)")
  case (Inl e)
  then show ?thesis
    by (auto simp: per_hop_def sink_outcome_def Sink_bench_def prog_defs Let_def split: sum.splits)
next
  case (Inr x)
  then obtain d where "sub_i64 now (req_nanosec m) = Inr d" "div_i64 d (i64 (grpc_kNumRelays + 1)) = Inr x"
    by (auto simp: per_hop_def split: sum.splits)
  with Inr assms show ?thesis
    by (cases s) (simp add: Sink_bench_def sink_outcome_def prog_defs insert_sample_def
        print_def grpc_line_def sink_answer_def Response_new_def Sink_print_stats_report Let_def)
qed

interpretation grpc_sink: latency_sink Sink_bench "i64 21" req_nanosec sink_answer grpc_line
  by (rule latency_sinkI) (simp add: Sink_bench_cases grpc_hops)

section \<open>Wiring\<close>

record grpc_main =
  grpc_relays :: "Relay list"
  grpc_sink_service :: "BenchServiceBase option"
  grpc_client :: string
  grpc_unavailable :: string

text \<open>
  \<open>main\<close> runs the relays and then the sink; \<open>grpc_sink_service\<close> is \<open>None\<close> when the sink is
  not running. The client's channel is to the first relay. \<open>grpc_unavailable\<close> is the error
  message the gRPC library has for a target that nothing serves, a parameter of the model.
\<close>

definition grpc_main_create :: "string \<Rightarrow> grpc_main" where
  "grpc_main_create err = \<lparr>
     grpc_relays = map Relay_ctor [0..grpc_kNumRelays - 1],
     grpc_sink_service = Some (Sink_ctor grpc_kNumRelays),
     grpc_client = ''127.0.0.1:5000'',
     grpc_unavailable = err\<rparr>"

text \<open>A channel reaches the service that listens on the port its target names.\<close>

definition port_text :: "string \<Rightarrow> string" where
  "port_text address = tl (dropWhile (\<lambda>c. c \<noteq> CHR '':'') address)"

datatype service = Relay_service Relay | Sink_service

definition service_at :: "grpc_main \<Rightarrow> string \<Rightarrow> service option" where
  "service_at st target =
     (case find (\<lambda>r. port_text (run_address r) = port_text target) (grpc_relays st) of
        Some r \<Rightarrow> Some (Relay_service r)
      | None \<Rightarrow> (case grpc_sink_service st of
          None \<Rightarrow> None
        | Some s \<Rightarrow> if port_text (run_address s) = port_text target then Some Sink_service else None))"

text \<open>
  A blocking stub call runs the service's handler and gives its status and response; when
  nothing serves the target the call returns a status that is not \<open>OK\<close> and leaves the
  response as it was. The first argument bounds the number of hops.
\<close>

fun stub_call :: "nat \<Rightarrow> grpc_main \<Rightarrow> (Request \<Rightarrow> ('w, Status \<times> Response) prog) \<Rightarrow> string \<Rightarrow> Request \<Rightarrow> ('w, Status \<times> Response) prog" where
  "stub_call 0 st sink target request = (\<lambda>w. None)"
| "stub_call (Suc n) st sink target request =
     (case service_at st target of
        None \<Rightarrow> returnP (Status_error (grpc_unavailable st), Response_new)
      | Some Sink_service \<Rightarrow> sink request
      | Some (Relay_service r) \<Rightarrow> Relay_bench r (stub_call n st sink) request)"

section \<open>The client loop of main\<close>

type_synonym grpc_round = "int64 \<times> iteration \<times> int64"

definition grpc_main_request :: "int64 \<Rightarrow> Request" where
  "grpc_main_request sent = Request_new\<lparr>req_msgid := i64 10, req_source := ''client'', req_nanosec := sent\<rparr>"

fun grpc_main_loop :: "grpc_main \<Rightarrow> (nat \<Rightarrow> grpc_round) \<Rightarrow> nat \<Rightarrow> nat \<Rightarrow> (sink_state, (Status \<times> Response) list) prog" where
  "grpc_main_loop st env i 0 = returnP []"
| "grpc_main_loop st env i (Suc k) = (case env i of (sent, iter, now) \<Rightarrow>
     bindP (stub_call 21 st (Sink_bench iter now) (grpc_client st) (grpc_main_request sent)) (\<lambda>(status, response).
     seqP (case status of
         Status_OK \<Rightarrow> returnP ()
       | Status_error message \<Rightarrow>
           print (''Status= '' @ message @ '', ack= '' @ to_string (ival (ack response)) @ endl)) (
     bindP (grpc_main_loop st env (Suc i) k) (\<lambda>rs. returnP ((status, response) # rs)))))"

text \<open>
  \<open>main\<close> with its objects \<open>st\<close>: after the loop it waits for services that nothing ever shuts down: it does not return.
\<close>

definition grpc_main_run :: "grpc_main \<Rightarrow> (nat \<Rightarrow> grpc_round) \<Rightarrow> (sink_state, int) prog" where
  "grpc_main_run st env =
     seqP (print (''Services initialized.'' @ endl)) (
     bindP (grpc_main_loop st env 0 1000) (\<lambda>_. \<lambda>w. None))"


section \<open>Lemmas on the wiring\<close>

definition hop_target :: "nat \<Rightarrow> string" where
  "hop_target i = ''127.0.0.1:'' @ to_string (5000 + int i)"

definition sink_down :: "string \<Rightarrow> grpc_main" where
  "sink_down err = (grpc_main_create err)\<lparr>grpc_sink_service := None\<rparr>"

lemma port_text_simps [simp]:
  "port_text (run_address s) = to_string (port s)" "port_text (hop_target i) = to_string (5000 + int i)"
  by (simp_all add: port_text_def run_address_def hop_target_def)

lemma port_ctor [simp]:
  "port (Relay_ctor i) = 5000 + i" "port (Sink_ctor i) = 5000 + i" "port (BenchServiceBase_ctor i) = 5000 + i"
  by (simp_all add: Relay_ctor_def Sink_ctor_def BenchServiceBase_ctor_def grpc_kRelayPortStart_def Let_def)

lemma relay_nth: "i < 20 \<Longrightarrow> map Relay_ctor [0..19] ! i = Relay_ctor (int i)"
  by (simp add: nth_upto)

lemma find_relay:
  "find (\<lambda>r. port r = 5000 + int i) (map Relay_ctor [0..19]) =
     (if i < 20 then Some (Relay_ctor (int i)) else None)"
proof (cases "i < 20")
  case True
  then have "\<exists>k<length (map Relay_ctor [0..19]). port (map Relay_ctor [0..19] ! k) = 5000 + int i \<and>
      Relay_ctor (int i) = map Relay_ctor [0..19] ! k \<and>
      (\<forall>j<k. port (map Relay_ctor [0..19] ! j) \<noteq> 5000 + int i)"
    by (intro exI [of _ i]) (auto simp: nth_upto)
  then have "find (\<lambda>r. port r = 5000 + int i) (map Relay_ctor [0..19]) = Some (Relay_ctor (int i))"
    by (simp only: find_Some_iff)
  with True show ?thesis
    by simp
next
  case False
  then have "find (\<lambda>r. port r = 5000 + int i) (map Relay_ctor [0..19]) = None"
    by (auto simp: find_None_iff)
  with False show ?thesis
    by simp
qed

lemma service_at_hop:
  "service_at (grpc_main_create err) (hop_target i) =
     (if i < 20 then Some (Relay_service (Relay_ctor (int i))) else if i = 20 then Some Sink_service else None)"
  "service_at (sink_down err) (hop_target i) = (if i < 20 then Some (Relay_service (Relay_ctor (int i))) else None)"
  using find_relay [of i]
  by (auto simp: service_at_def sink_down_def grpc_main_create_def grpc_kNumRelays_def)

lemma unavailable: "grpc_unavailable (sink_down err) = err"
  by (simp add: sink_down_def grpc_main_create_def)

lemma client_target: "grpc_client (grpc_main_create err) = hop_target 0" "grpc_client (sink_down err) = hop_target 0"
proof -
  have "to_string 5000 = ''5000''"
    by (simp add: show_digits)
  then show "grpc_client (grpc_main_create err) = hop_target 0" "grpc_client (sink_down err) = hop_target 0"
    by (simp_all add: sink_down_def grpc_main_create_def hop_target_def)
qed

lemma Relay_bench_hop:
  "Relay_bench (Relay_ctor (int i)) stub m =
     bindP (stub (hop_target (Suc i)) (grpc_relay_copy (5000 + int i) m))
       (\<lambda>r. returnP (Status_OK, \<lparr>ack = req_msgid m\<rparr>))"
  by (simp add: Relay_bench_def Relay_ctor_def BenchServiceBase_ctor_def Response_new_def
      grpc_kRelayPortStart_def hop_target_def Let_def split_def algebra_simps)

definition grpc_reply :: "nat \<Rightarrow> Request \<Rightarrow> Status \<times> Response \<Rightarrow> Status \<times> Response" where
  "grpc_reply i m r = (Status_OK, \<lparr>ack = req_msgid m\<rparr>)"

text \<open>The same chain with the sink running and with the sink down.\<close>

interpretation grpc_chain: rpc_chain "\<lambda>n i. stub_call n (grpc_main_create err) sink (hop_target i)" sink
    "\<lambda>i. grpc_relay_copy (5000 + int i)" grpc_reply 20 for sink :: "Request \<Rightarrow> ('w, Status \<times> Response) prog"
  by standard (simp_all add: service_at_hop Relay_bench_hop grpc_reply_def)

interpretation grpc_down: rpc_chain "\<lambda>n i. stub_call n (sink_down err) sink (hop_target i)"
    "\<lambda>m. returnP (Status_error err, Response_new)"
    "\<lambda>i. grpc_relay_copy (5000 + int i)" grpc_reply 20 for sink :: "Request \<Rightarrow> ('w, Status \<times> Response) prog"
  by standard (simp_all add: service_at_hop unavailable Relay_bench_hop grpc_reply_def)

lemma copies_grpc:
  "copies (\<lambda>i. grpc_relay_copy (5000 + int i)) i (Suc k) m = grpc_relay_copy (5000 + int (i + k)) m"
proof (induction k arbitrary: i m)
  case 0
  then show ?case by simp
next
  case (Suc k)
  have "copies (\<lambda>i. grpc_relay_copy (5000 + int i)) i (Suc (Suc k)) m =
      copies (\<lambda>i. grpc_relay_copy (5000 + int i)) (Suc i) (Suc k) (grpc_relay_copy (5000 + int i) m)"
    by simp
  also have "\<dots> = grpc_relay_copy (5000 + int (Suc i + k)) (grpc_relay_copy (5000 + int i) m)"
    by (rule Suc.IH)
  also have "\<dots> = grpc_relay_copy (5000 + int (i + Suc k)) m"
    by (simp add: grpc_relay_copy_def Request_new_def)
  finally show ?case .
qed

lemma answers_grpc: "0 < k \<Longrightarrow> answers copy grpc_reply i k m r = (Status_OK, \<lparr>ack = req_msgid m\<rparr>)"
  by (cases k) (simp_all add: grpc_reply_def)

lemma copies_grpc_20: "copies (\<lambda>i. grpc_relay_copy (5000 + int i)) 0 20 m = grpc_relay_copy 5019 m"
proof -
  have "(20::nat) = Suc 19"
    by simp
  then show ?thesis
    by (simp only: copies_grpc) simp
qed

lemma stub_call_hops:
  "stub_call n (grpc_main_create err) sink (grpc_client (grpc_main_create err)) m w =
     (if 20 < n then bindP (sink (grpc_relay_copy 5019 m)) (\<lambda>_. returnP (Status_OK, \<lparr>ack = req_msgid m\<rparr>)) w
      else None)"
  using grpc_chain.call_hops [of n err sink m w]
  by (simp add: client_target copies_grpc_20 answers_grpc)

lemma stub_call_down:
  "stub_call n (sink_down err) sink (grpc_client (sink_down err)) m w =
     (if 20 < n then Some (Inr (Status_OK, \<lparr>ack = req_msgid m\<rparr>), w) else None)"
  using grpc_down.call_hops [of n err sink m w]
  by (simp add: client_target answers_grpc returnP_def bindP_def)

lemma grpc_relay_copy_fields:
  "req_msgid (grpc_relay_copy p m) = req_msgid m" "req_nanosec (grpc_relay_copy p m) = req_nanosec m"
  "req_source (grpc_relay_copy p m) = ''relay '' @ to_string p"
  by (simp_all add: grpc_relay_copy_def Request_new_def)

text \<open>The client loop is the sink fed with what the last relay sends on, while the sink answers \<open>OK\<close>.\<close>

definition grpc_arrival :: "(nat \<Rightarrow> grpc_round) \<Rightarrow> nat \<Rightarrow> Request arrival" where
  "grpc_arrival env i = (case env i of (sent, iter, now) \<Rightarrow>
     (iter, now, grpc_relay_copy 5019 (grpc_main_request sent)))"

lemma stub_call_sink:
  "stub_call 21 (grpc_main_create err) sink (grpc_client (grpc_main_create err)) m =
     bindP (sink (grpc_relay_copy 5019 m)) (\<lambda>_. returnP (Status_OK, \<lparr>ack = req_msgid m\<rparr>))"
  by (simp add: fun_eq_iff stub_call_hops del: stub_call.simps)

lemma grpc_loop_Suc:
  assumes "env i = (sent, iter, now)"
  shows "grpc_main_loop (grpc_main_create err) env i (Suc k) =
    bindP (Sink_bench iter now (grpc_relay_copy 5019 (grpc_main_request sent))) (\<lambda>_.
    bindP (grpc_main_loop (grpc_main_create err) env (Suc i) k) (\<lambda>rs.
      returnP ((Status_OK, \<lparr>ack = i64 10\<rparr>) # rs)))"
  by (simp add: assms stub_call_sink bind_assoc seqP_def grpc_main_request_def Request_new_def
      del: stub_call.simps)

lemma grpc_loop_stops:
  assumes "feed Sink_bench (map (grpc_arrival env) [i..<i + k]) s = Some (Inl e, s')"
  shows "grpc_main_loop (grpc_main_create err) env i k s = Some (Inl e, s')"
  using assms
proof (induction k arbitrary: i s)
  case 0
  then show ?case by (simp add: returnP_def)
next
  case (Suc k)
  have upt: "[i..<i + Suc k] = i # [Suc i..<Suc i + k]"
    by (simp add: upt_rec)
  obtain sent iter now where env: "env i = (sent, iter, now)"
    by (cases "env i")
  let ?m = "grpc_relay_copy 5019 (grpc_main_request sent)"
  have arrival: "grpc_arrival env i = (iter, now, ?m)"
    by (simp add: grpc_arrival_def env)
  have feed: "bindP (Sink_bench iter now ?m) (\<lambda>r.
      bindP (feed Sink_bench (map (grpc_arrival env) [Suc i..<Suc i + k])) (\<lambda>rs. returnP (r # rs))) s =
      Some (Inl e, s')"
    using Suc.prems by (simp only: upt list.map feed.simps arrival)
  show ?case
  proof (cases "\<exists>a s1. Sink_bench iter now ?m s = Some (Inr a, s1)")
    case True
    then obtain a s1 where p: "Sink_bench iter now ?m s = Some (Inr a, s1)"
      by blast
    with feed have "feed Sink_bench (map (grpc_arrival env) [Suc i..<Suc i + k]) s1 = Some (Inl e, s')"
      by (auto simp: bindP_def returnP_def simp del: upt_Suc
          split: option.splits prod.splits sum.splits)
    then have "grpc_main_loop (grpc_main_create err) env (Suc i) k s1 = Some (Inl e, s')"
      by (rule Suc.IH)
    with p show ?thesis
      by (simp only: grpc_loop_Suc [where env = env and i = i, OF env]) (simp add: bindP_def)
  next
    case False
    with feed have "Sink_bench iter now ?m s = Some (Inl e, s')"
      by (auto simp: bindP_def split: option.splits prod.splits sum.splits)
    then show ?thesis
      by (simp only: grpc_loop_Suc [where env = env and i = i, OF env]) (simp add: bindP_def)
  qed
qed

lemma grpc_loop_down:
  "grpc_main_loop (sink_down err) env i k s =
     Some (Inr (replicate k (Status_OK, \<lparr>ack = i64 10\<rparr>)), s)"
proof (induction k arbitrary: i)
  case 0
  then show ?case by (simp add: returnP_def)
next
  case (Suc k)
  obtain sent iter now where env: "env i = (sent, iter, now)"
    by (cases "env i")
  show ?case
    using Suc [of "Suc i"]
    by (simp add: env bindP_def seqP_def returnP_def stub_call_down grpc_main_request_def
        Request_new_def del: stub_call.simps)
qed


section \<open>Properties\<close>

text \<open>
  C9: with the services of \<open>main\<close> running, a call of the client goes through exactly
  \<open>kNumRelays + 1\<close> hops, runs the sink on the client's id and time stamp under the name of
  the last relay's port, and answers \<open>OK\<close> with the client's own message id, whatever the
  sink answered.
\<close>

theorem grpc_call_hops:
  "stub_call n (grpc_main_create err) sink (grpc_client (grpc_main_create err)) m w =
     (if grpc_kNumRelays + 1 \<le> int n
      then bindP (sink \<lparr>req_msgid = req_msgid m, req_nanosec = req_nanosec m, req_source = ''relay 5019''\<rparr>)
        (\<lambda>_. returnP (Status_OK, \<lparr>ack = req_msgid m\<rparr>)) w
      else None)"
proof -
  have "to_string 5019 = ''5019''"
    by (simp add: show_digits)
  then have "grpc_relay_copy 5019 m =
      \<lparr>req_msgid = req_msgid m, req_nanosec = req_nanosec m, req_source = ''relay 5019''\<rparr>"
    by (simp add: grpc_relay_copy_def Request_new_def)
  then show ?thesis
    by (auto simp: stub_call_hops grpc_kNumRelays_def)
qed

text \<open>
  C29: a relay answers \<open>OK\<close> whatever the status and response of its own call are, so with
  the sink down the client loop of \<open>main\<close> still gets a thousand \<open>OK\<close> answers with its own
  message id, prints no error and leaves the sink without a sample.
\<close>

theorem grpc_sink_down_unnoticed:
  "grpc_main_loop (sink_down err) env 0 1000 s =
     Some (Inr (replicate 1000 (Status_OK, \<lparr>ack = i64 10\<rparr>)), s)"
  by (rule grpc_loop_down)

text \<open>
  The gRPC sink's callback on every branch: overflow is undefined behaviour; otherwise
  the sample is stored and its line written, and the answer is \<open>OK\<close> with the message id
  below a thousand samples, the report and \<open>exit(0)\<close> from the thousandth on.
\<close>

theorem Sink_bench_spec:
  assumes "enumerates iter" and "size (sink_data s) < 2 ^ 26"
  shows "Sink_bench iter now m s =
    (if \<not> in_i64 (ival now - ival (req_nanosec m)) then Some (Inl (Undef Signed_overflow), s)
     else let x = i64 ((ival now - ival (req_nanosec m)) sdiv 21);
              M = add_mset x (sink_data s);
              t = cout s @ ''nano seconds per hop: '' @ to_string (ival x) @ endl
          in if size M < 1000
             then Some (Inr (Status_OK, \<lparr>ack = req_msgid m\<rparr>), \<lparr>sink_data = M, cout = t\<rparr>)
             else Some (Inl (Exit 0), \<lparr>sink_data = M, cout = t @ stats_report M\<rparr>))"
  using assms
  by (simp add: Sink_bench_cases grpc_hops sink_outcome_def per_hop_eq grpc_line_def
      sink_answer_def Let_def)

theorem Sink_bench_spec_witness:
  "Sink_bench sorted_list_of_multiset (i64 (2 ^ 62)) (grpc_main_request (i64 (- (2 ^ 63)))) empty_sink =
    Some (Inl (Undef Signed_overflow), empty_sink)"
proof -
  have "ival (i64 (2 ^ 62)) = 2 ^ 62" "ival (i64 (- (2 ^ 63))) = - (2 ^ 63)"
    by (simp_all add: ival_i64 in_i64_def)
  then show ?thesis
    using Sink_bench_spec [OF enumerates_sorted_list,
        of empty_sink "i64 (2 ^ 62)" "grpc_main_request (i64 (- (2 ^ 63)))"]
    by (simp add: empty_sink_def grpc_main_request_def Request_new_def in_i64_def)
qed

text \<open>
  C13: with the sink running and a clock that does not go back, the thousandth call of the
  client loop ends the process with code 0 after the start-up line, one line per message and
  the report.
\<close>

theorem grpc_main_exits:
  assumes "\<forall>i<1000. case env i of (sent, iter, now) \<Rightarrow>
      enumerates iter \<and> 0 \<le> ival sent \<and> ival sent \<le> ival now"
    and "xs = map (\<lambda>i. case env i of (sent, iter, now) \<Rightarrow>
      i64 ((ival now - ival sent) div (grpc_kNumRelays + 1))) [0..<1000]"
  shows "grpc_main_run (grpc_main_create err) env empty_sink = Some (Inl (Exit 0),
    \<lparr>sink_data = mset xs,
      cout = ''Services initialized.'' @ endl @ concat (map grpc_line xs) @ stats_report (mset xs)\<rparr>)"
proof -
  let ?s = "\<lparr>sink_data = {#}, cout = ''Services initialized.'' @ endl\<rparr>"
  have hop: "per_hop (i64 21) now sent = Inr (i64 ((ival now - ival sent) div 21))"
    if "0 \<le> ival sent" "ival sent \<le> ival now" for now sent
    using per_hop_monotone_clock [of "i64 21" sent now] that grpc_hops
    by (metis i64_ival zero_less_numeral)
  have "latencies (i64 21) req_nanosec (map (grpc_arrival env) [0..<1000]) xs"
    using assms hop
    by (auto simp: latencies_def list_all2_conv_all_nth grpc_arrival_def grpc_relay_copy_fields
        grpc_main_request_def Request_new_def grpc_kNumRelays_def split: prod.splits)
  then have "feed Sink_bench (map (grpc_arrival env) [0..<1000] @ []) ?s = Some (Inl (Exit 0),
      \<lparr>sink_data = sink_data ?s + mset xs,
       cout = cout ?s @ concat (map grpc_line xs) @ stats_report (sink_data ?s + mset xs)\<rparr>)"
    by (rule grpc_sink.feed_exit) simp_all
  then have "grpc_main_loop (grpc_main_create err) env 0 1000 ?s = Some (Inl (Exit 0),
      \<lparr>sink_data = mset xs,
       cout = ''Services initialized.'' @ endl @ concat (map grpc_line xs) @ stats_report (mset xs)\<rparr>)"
    by (intro grpc_loop_stops) simp
  then show ?thesis
    by (simp add: grpc_main_run_def seqP_def bindP_def print_def modifyP_def empty_sink_def)
qed

theorem grpc_main_exits_witness:
  "\<exists>s. grpc_main_run (grpc_main_create ''failed to connect'') (\<lambda>i. (i64 7, sorted_list_of_multiset, i64 2107)) empty_sink =
    Some (Inl (Exit 0), s)"
proof -
  have "\<forall>i<1000::nat. case (i64 7, sorted_list_of_multiset, i64 2107) of (sent, iter, now) \<Rightarrow>
      enumerates iter \<and> 0 \<le> ival sent \<and> ival sent \<le> ival now"
    by (simp add: enumerates_sorted_list ival_i64 in_i64_def)
  from grpc_main_exits [OF this refl] show ?thesis
    by blast
qed

end
