(* ===== verification/Ros_Types.thy ===== *)
theory Ros_Types
  imports Latency "HOL-Library.Sublist"
begin

text \<open>
  What the two ROS 2 benchmarks share: the interface package \<open>pnodeif\<close> (the message
  \<open>Timing\<close> and the service \<open>Bench\<close>), the quality-of-service settings, and the queue between
  a publisher and a subscription as the interface \<open>topic_queue\<close>.
\<close>

section \<open>Messages\<close>

text \<open>\<open>pnodeif/msg/Timing.msg\<close>, with the defaults of a fresh message.\<close>

record Timing =
  t_msgid :: int64
  t_nanosec :: int64
  t_source :: string

definition Timing_new :: Timing where
  "Timing_new = \<lparr>t_msgid = i64 0, t_nanosec = i64 0, t_source = []\<rparr>"

section \<open>Queues between nodes\<close>

lemma subseq_set: "subseq xs ys \<Longrightarrow> set xs \<subseteq> set ys"
  by (auto elim: list_emb_set)

lemma sorted_wrt_subseq: "subseq xs ys \<Longrightarrow> sorted_wrt P ys \<Longrightarrow> sorted_wrt P xs"
  by (induction rule: list_emb.induct) (auto dest: subseq_set)

text \<open>
  A subscription holds the messages its callback has not taken yet. \<open>push\<close> adds one; a
  queue may lose messages, but keeps their order, makes none up, and keeps its bound.
\<close>

locale topic_queue =
  fixes push :: "'m list \<Rightarrow> 'm \<Rightarrow> 'm list"
    and bound :: nat
  assumes push_subseq: "subseq (push q m) (q @ [m])"
    and push_bound: "length q \<le> bound \<Longrightarrow> length (push q m) \<le> bound"

text \<open>
  The contract of a chain of such queues: a FIFO channel that may lose messages. Its state
  is what was sent, what is in transit, and what has arrived, each in order.
\<close>

record 'm channel =
  sent :: "'m list"
  pending :: "'m list"
  arrived :: "'m list"

inductive channel_step :: "'m channel \<Rightarrow> 'm channel \<Rightarrow> bool" where
  send: "channel_step c (c\<lparr>sent := sent c @ [m], pending := pending c @ [m]\<rparr>)"
| lose: "pending c = xs @ m # ys \<Longrightarrow> channel_step c (c\<lparr>pending := xs @ ys\<rparr>)"
| arrive: "pending c = m # ys \<Longrightarrow> channel_step c (c\<lparr>pending := ys, arrived := arrived c @ [m]\<rparr>)"

definition channel_ok :: "'m channel \<Rightarrow> bool" where
  "channel_ok c \<longleftrightarrow> subseq (arrived c @ pending c) (sent c)"

lemma channel_step_ok: "channel_step c d \<Longrightarrow> channel_ok c \<Longrightarrow> channel_ok d"
proof (induction rule: channel_step.induct)
  case (send c m)
  then show ?case
    by (simp add: channel_ok_def flip: append_assoc)
next
  case (lose c xs m ys)
  have "subseq (arrived c @ xs @ ys) (arrived c @ xs @ m # ys)"
    by (intro list_emb_append_mono subseq_order.refl list_emb.list_emb_Cons)
  with lose show ?case
    by (auto simp: channel_ok_def intro: subseq_order.trans)
next
  case (arrive c m ys)
  then show ?case
    by (simp add: channel_ok_def)
qed

lemma channel_steps_ok: "channel_step\<^sup>*\<^sup>* c d \<Longrightarrow> channel_ok c \<Longrightarrow> channel_ok d"
  by (induction rule: rtranclp_induct) (auto intro: channel_step_ok)

text \<open>Losing several messages at once.\<close>

lemma channel_lose:
  "subseq xs ys \<Longrightarrow> channel_step\<^sup>*\<^sup>* (c\<lparr>pending := zs @ ys\<rparr>) (c\<lparr>pending := zs @ xs\<rparr>)"
proof (induction arbitrary: zs rule: list_emb.induct)
  case (list_emb_Nil ys)
  show ?case
  proof (induction ys)
    case Nil
    then show ?case by simp
  next
    case (Cons y ys)
    have "channel_step (c\<lparr>pending := zs @ y # ys\<rparr>) (c\<lparr>pending := zs @ ys\<rparr>)"
      using channel_step.lose [of "c\<lparr>pending := zs @ y # ys\<rparr>" zs y ys] by simp
    with Cons show ?case
      by (meson converse_rtranclp_into_rtranclp)
  qed
next
  case (list_emb_Cons xs ys y)
  have "channel_step (c\<lparr>pending := zs @ y # ys\<rparr>) (c\<lparr>pending := zs @ ys\<rparr>)"
    using channel_step.lose [of "c\<lparr>pending := zs @ y # ys\<rparr>" zs y ys] by simp
  with list_emb_Cons show ?case
    by (meson converse_rtranclp_into_rtranclp)
next
  case (list_emb_Cons2 x y xs ys)
  from list_emb_Cons2.IH [of "zs @ [x]"] list_emb_Cons2.hyps show ?case
    by simp
qed

lemma channel_steps_lose:
  assumes "subseq xs (pending c)"
  shows "channel_step\<^sup>*\<^sup>* c (c\<lparr>pending := xs\<rparr>)"
  using channel_lose [OF assms, where c = c and zs = "[]"] by simp

lemma channel_steps_send:
  assumes "subseq xs (q @ [m])" and "pending c = q"
  shows "channel_step\<^sup>*\<^sup>* c (c\<lparr>sent := sent c @ [m], pending := xs\<rparr>)"
  using channel_steps_lose [of xs "c\<lparr>sent := sent c @ [m], pending := pending c @ [m]\<rparr>"] assms
  by (auto intro: converse_rtranclp_into_rtranclp channel_step.send)

lemma channel_arrive:
  assumes "ys = m # xs"
  shows "pending c = ys \<Longrightarrow> channel_step\<^sup>*\<^sup>* c (c\<lparr>pending := xs, arrived := arrived c @ [m]\<rparr>)"
  using channel_step.arrive [of c m xs] assms by auto

text \<open>What is neither in transit nor has arrived is lost, and stays lost.\<close>

lemma channel_step_lost:
  "channel_step c d \<Longrightarrow>
     length (arrived d) + length (pending d) + length (sent c) \<le> length (arrived c) + length (pending c) + length (sent d)"
  by (induction rule: channel_step.induct) simp_all

lemma channel_steps_lost:
  "channel_step\<^sup>*\<^sup>* c d \<Longrightarrow>
     length (arrived d) + length (pending d) + length (sent c) \<le> length (arrived c) + length (pending c) + length (sent d)"
  by (induction rule: rtranclp_induct) (auto dest: channel_step_lost)

section \<open>The queues of the hops\<close>

text \<open>All messages in transit over the 21 hops, those nearest to the sink first.\<close>

definition pipeline :: "(nat \<Rightarrow> 'm list) \<Rightarrow> 'm list" where
  "pipeline q = concat (map q (rev [0..<21]))"

lemma pipeline_empty [simp]: "pipeline (\<lambda>_. []) = []"
  by (simp add: pipeline_def)

lemma set_pipeline: "set (pipeline q) = (\<Union>i\<in>{0..<21}. set (q i))"
  by (auto simp: pipeline_def)

lemma upt_split: "i \<le> j \<Longrightarrow> j \<le> k \<Longrightarrow> [i..<k] = [i..<j] @ [j..<k]"
  by (metis le_add_diff_inverse upt_add_eq_append)

lemma map_upd_cong: "i \<notin> set is \<Longrightarrow> map (q(i := u)) is = map q is"
  by (induction "is") auto

text \<open>A hop takes the first message of its queue and adds one to the next queue.\<close>

lemma pipeline_hop:
  assumes "i < 20" and "q i = m # xs" and "subseq ys (q (Suc i) @ [m])"
  shows "subseq (pipeline (q(i := xs, Suc i := ys))) (pipeline q)"
proof -
  have upt: "[0..<21] = [0..<i] @ [i, Suc i] @ [Suc (Suc i)..<21]"
    using assms(1) upt_split [of 0 i 21] upt_split [of i "Suc (Suc i)" 21]
    by (simp add: upt_conv_Cons)
  let ?a = "concat (map q (rev [Suc (Suc i)..<21]))" and ?b = "concat (map q (rev [0..<i]))"
  have "pipeline (q(i := xs, Suc i := ys)) = ?a @ ys @ xs @ ?b"
    and "pipeline q = ?a @ (q (Suc i) @ [m]) @ xs @ ?b"
    unfolding pipeline_def upt by (simp_all add: map_upd_cong assms(2))
  then show ?thesis
    by (simp only:) (intro list_emb_append_mono assms(3) subseq_order.refl)
qed

lemma pipeline_send:
  assumes "subseq ys (q 0 @ [m])"
  shows "subseq (pipeline (q(0 := ys))) (pipeline q @ [m])"
proof -
  have upt: "[0..<21] = 0 # [Suc 0..<21]"
    by (simp add: upt_conv_Cons)
  let ?a = "concat (map q (rev [Suc 0..<21]))"
  have "pipeline (q(0 := ys)) = ?a @ ys" and "pipeline q @ [m] = ?a @ q 0 @ [m]"
    unfolding pipeline_def upt by (simp_all add: map_upd_cong del: upt_Suc)
  then show ?thesis
    by (simp only:) (intro list_emb_append_mono assms subseq_order.refl)
qed

lemma pipeline_arrive:
  assumes "q 20 = m # xs"
  shows "pipeline q = m # pipeline (q(20 := xs))"
proof -
  have upt: "[0..<21] = [0..<20] @ [20]"
    using upt_split [of 0 20 21] by (simp add: upt_conv_Cons)
  show ?thesis
    unfolding pipeline_def upt by (simp add: map_upd_cong assms del: upt_Suc)
qed

lemma map_pipeline: "map f (pipeline q) = pipeline (\<lambda>i. map f (q i))"
  by (simp add: pipeline_def map_concat o_def)

text \<open>Messages in transit, counted or weighted by their hop.\<close>

definition weight :: "(nat \<Rightarrow> nat) \<Rightarrow> (nat \<Rightarrow> 'm list) \<Rightarrow> nat" where
  "weight w q = (\<Sum>i<21. w i * length (q i))"

lemma length_pipeline: "length (pipeline q) = weight (\<lambda>_. 1) q"
  by (simp add: pipeline_def weight_def length_concat o_def interv_sum_list_conv_sum_set_nat atLeast0LessThan flip: rev_map)

lemma weight_upd:
  assumes "i < 21"
  shows "weight w (q(i := xs)) + w i * length (q i) = weight w q + w i * length xs"
proof -
  have "(\<Sum>j<21. w j * length ((q(i := xs)) j)) = w i * length xs + (\<Sum>j\<in>{..<21} - {i}. w j * length (q j))"
    using assms by (subst sum.remove [of _ i]) auto
  moreover have "(\<Sum>j<21. w j * length (q j)) = w i * length (q i) + (\<Sum>j\<in>{..<21} - {i}. w j * length (q j))"
    using assms by (subst sum.remove [of _ i]) auto
  ultimately show ?thesis
    by (simp add: weight_def)
qed

context topic_queue
begin

text \<open>
  The same for messages that are changed on the way except for what \<open>key\<close> reads: with
  queues that keep order, the keys in transit keep theirs.
\<close>

lemma hop:
  assumes "i < 20" and "q i = m # xs" and "key m' = key m"
  shows "subseq (map key (pipeline (q(i := xs, Suc i := push (q (Suc i)) m')))) (map key (pipeline q))"
proof -
  have "subseq (map key (push (q (Suc i)) m')) (map key (q (Suc i)) @ [key m])"
    using subseq_map [OF push_subseq, of key "q (Suc i)" m'] assms(3) by simp
  then have "subseq (pipeline ((\<lambda>i. map key (q i))(i := map key xs, Suc i := map key (push (q (Suc i)) m'))))
      (pipeline (\<lambda>i. map key (q i)))"
    using assms by (intro pipeline_hop) simp_all
  then show ?thesis
    by (simp add: map_pipeline fun_upd_def if_distrib [of "map key"] cong: if_cong)
qed

lemma send:
  "subseq (map key (pipeline (q(0 := push (q 0) m)))) (map key (pipeline q) @ [key m])"
proof -
  have "subseq (pipeline ((\<lambda>i. map key (q i))(0 := map key (push (q 0) m)))) (pipeline (\<lambda>i. map key (q i)) @ [key m])"
    using subseq_map [OF push_subseq, of key "q 0" m] by (intro pipeline_send) simp
  then show ?thesis
    by (simp add: map_pipeline fun_upd_def if_distrib [of "map key"] cong: if_cong)
qed

end

section \<open>Quality of service\<close>

text \<open>
  The settings of \<open>get_qos\<close>, and the queue of a subscription with history \<open>KEEP_LAST\<close> of a
  given depth: a message that arrives when the queue is full displaces the oldest one.
\<close>

datatype reliability = Reliable | Best_effort

datatype durability = Transient_local | Volatile

record QoS =
  history_depth :: nat
  qos_reliability :: reliability
  qos_durability :: durability

definition keep_last :: "nat \<Rightarrow> 'm list \<Rightarrow> 'm \<Rightarrow> 'm list" where
  "keep_last depth q m = drop (length (q @ [m]) - depth) (q @ [m])"

lemma keep_last_room: "length q < depth \<Longrightarrow> keep_last depth q m = q @ [m]"
  by (simp add: keep_last_def)

lemma topic_queue_lost: "topic_queue (\<lambda>q _. q) bound"
  by unfold_locales (simp_all add: subseq_rev_drop_many)

lemma topic_queue_keep_last: "topic_queue (keep_last depth) depth"
proof
  show "subseq (keep_last depth q m) (q @ [m])" for q :: "'a list" and m
    by (simp only: keep_last_def suffix_imp_subseq suffix_drop)
  show "length (keep_last depth q m) \<le> depth" for q :: "'a list" and m
    by (simp add: keep_last_def)
qed

end
