(* ===== verification/Ros_Pubsub.thy ===== *)
theory Ros_Pubsub
  imports Ros_Types
begin

text \<open>
  \<open>pnode/src/pub.cpp\<close>: the source, relay and sink nodes of the ROS 2 publish/subscribe
  benchmark, their construction in \<open>main\<close>, and their execution as a step relation: one step
  is one callback of one node (the callbacks of a node are mutually exclusive, the executor
  may run the nodes in any order).
\<close>

section \<open>Nodes\<close>

definition pnode_kNumRelays :: int where
  "pnode_kNumRelays = 20"

definition get_qos :: QoS where
  "get_qos = (let qos = \<lparr>history_depth = 10, qos_reliability = Reliable, qos_durability = Volatile\<rparr>;
                  qos = qos\<lparr>qos_reliability := Reliable\<rparr>;
                  qos = qos\<lparr>qos_durability := Transient_local\<rparr>
              in qos)"

text \<open>The source: its topic, its timer's period and its message counter.\<close>

record PnodeSource =
  source_topic :: string
  source_period_ms :: nat
  source_msgid :: int64

definition PnodeSource_ctor :: PnodeSource where
  "PnodeSource_ctor = \<lparr>source_topic = ''msg_0'', source_period_ms = 1, source_msgid = i64 0\<rparr>"

text \<open>A publication is a topic and a message.\<close>

type_synonym publication = "string \<times> Timing"

definition PnodeSource_publish :: "int64 \<Rightarrow> (PnodeSource, publication) prog" where
  "PnodeSource_publish now =
     bindP (getP source_msgid) (\<lambda>k.
     bindP (pureP (add_i64 k (i64 1))) (\<lambda>k'.
     seqP (modifyP (\<lambda>this. this\<lparr>source_msgid := k'\<rparr>)) (
     let t = Timing_new\<lparr>t_msgid := k'\<rparr>;
         t = t\<lparr>t_nanosec := now\<rparr>;
         t = t\<lparr>t_source := ''pnode publisher''\<rparr>
     in bindP (getP source_topic) (\<lambda>topic. returnP (topic, t)))))"

text \<open>
  A relay: its name, index and topics. The constructor reads its index from the node
  options' first argument: undefined behaviour without one, an exception of \<open>std::stoi\<close>
  when it is not a number. \<open>index_ + 1\<close> must fit an \<open>int\<close>.
\<close>

record PnodeRelay =
  relay_name :: string
  index :: int
  pub_topic :: string
  sub_topic :: string

definition check_int :: "int \<Rightarrow> stop + int" where
  "check_int k = (if - (2 ^ 31) \<le> k \<and> k < 2 ^ 31 then Inr k else Inl (Undef Signed_overflow))"

definition PnodeRelay_ctor :: "string list \<Rightarrow> stop + PnodeRelay" where
  "PnodeRelay_ctor arguments =
     (case vector_at arguments 0 of Inl e \<Rightarrow> Inl e | Inr arg \<Rightarrow>
     (case stoi arg of Inl e \<Rightarrow> Inl e | Inr i \<Rightarrow>
     (case check_int (i + 1) of Inl e \<Rightarrow> Inl e | Inr j \<Rightarrow>
       Inr \<lparr>relay_name = ''relay_'' @ arg, index = i,
            pub_topic = ''msg_'' @ to_string j, sub_topic = ''msg_'' @ to_string i\<rparr>)))"

text \<open>
  The relay's callback makes a copy under its own name and publishes \<open>msg\<close>, the message it
  was given.
\<close>

definition PnodeRelay_listen :: "PnodeRelay \<Rightarrow> Timing \<Rightarrow> publication" where
  "PnodeRelay_listen this msg =
     (let copy = msg\<lparr>t_source := ''pnode relay '' @ to_string (index this)\<rparr>
      in (pub_topic this, msg))"

definition sink_topic :: string where
  "sink_topic = ''msg_'' @ to_string pnode_kNumRelays"

definition PnodeSink_print_stats :: "iteration \<Rightarrow> (sink_state, unit) prog" where
  "PnodeSink_print_stats iter =
     bindP (getP (\<lambda>s. sort (iter (sink_data s)))) (\<lambda>array.
     let p50_index = int_of_size (size_of (length array) div 2);
         p90_index = int_of_size (size_of (length array) * 9 div 10)
     in bindP (pureP (vector_at array p50_index)) (\<lambda>p50.
        bindP (pureP (div_i64 p50 (i64 1000))) (\<lambda>p50_us.
        bindP (pureP (vector_at array p90_index)) (\<lambda>p90.
        bindP (pureP (div_i64 p90 (i64 1000))) (\<lambda>p90_us.
        print (endl @ ''Stats with '' @ show_nat (length array) @ '' data points, ns/hop:'' @
          endl @ ''P50 = '' @ to_string (ival p50_us) @ ''us, P90 = '' @
          to_string (ival p90_us) @ ''us'' @ endl @ endl))))))"

definition PnodeSink_listen :: "iteration \<Rightarrow> int64 \<Rightarrow> Timing \<Rightarrow> (sink_state, unit) prog" where
  "PnodeSink_listen iter now msg =
     bindP (pureP (sub_i64 now (t_nanosec msg))) (\<lambda>elapsed.
     bindP (pureP (div_i64 elapsed (i64 (pnode_kNumRelays + 1)))) (\<lambda>nanosec_per_hop.
     seqP (insert_sample nanosec_per_hop) (
     bindP (getP (\<lambda>s. size (sink_data s))) (\<lambda>n.
     if 1000 \<le> n then seqP (PnodeSink_print_stats iter) (stopP (Exit 0)) else returnP ()))))"

lemma PnodeSink_print_stats_report:
  assumes "enumerates iter" and "sink_data s \<noteq> {#}" and "size (sink_data s) < 2 ^ 27"
  shows "PnodeSink_print_stats iter s = Some (Inr (), s\<lparr>cout := cout s @ stats_report (sink_data s)\<rparr>)"
  using assms
  by (simp add: PnodeSink_print_stats_def prog_defs report_simps print_def stats_report_def stats_text_def)

lemma pnode_hops: "i64 (pnode_kNumRelays + 1) = i64 21" "ival (i64 21) = 21"
  by (simp_all add: pnode_kNumRelays_def ival_i64 in_i64_def)

lemma PnodeSink_listen_cases:
  assumes "enumerates iter" and "size (sink_data s) < 2 ^ 26"
  shows "PnodeSink_listen iter now m s =
    sink_outcome (\<lambda>_. []) () (per_hop (i64 (pnode_kNumRelays + 1)) now (t_nanosec m)) s"
proof (cases "per_hop (i64 (pnode_kNumRelays + 1)) now (t_nanosec m)")
  case (Inl e)
  then show ?thesis
    by (auto simp: per_hop_def sink_outcome_def PnodeSink_listen_def prog_defs split: sum.splits)
next
  case (Inr x)
  then obtain d where "sub_i64 now (t_nanosec m) = Inr d" "div_i64 d (i64 (pnode_kNumRelays + 1)) = Inr x"
    by (auto simp: per_hop_def split: sum.splits)
  with Inr assms show ?thesis
    by (cases s) (simp add: PnodeSink_listen_def sink_outcome_def prog_defs insert_sample_def
        PnodeSink_print_stats_report Let_def)
qed

interpretation pnode_sink: latency_sink PnodeSink_listen "i64 21" t_nanosec "\<lambda>_. ()" "\<lambda>_. []"
  by (rule latency_sinkI) (simp add: PnodeSink_listen_cases pnode_hops)

section \<open>main\<close>

text \<open>The relays \<open>main\<close> creates, each from the text of its index; the first failure ends the program.\<close>

fun create_relays :: "int list \<Rightarrow> (sink_state, PnodeRelay list) prog" where
  "create_relays [] = returnP []"
| "create_relays (i # is) =
     seqP (print (to_string i @ '', '')) (
     bindP (pureP (PnodeRelay_ctor [to_string i])) (\<lambda>r.
     bindP (create_relays is) (\<lambda>rs.
     returnP (r # rs))))"

definition pnode_main_create :: "(sink_state, PnodeSource \<times> PnodeRelay list) prog" where
  "pnode_main_create =
     seqP (print ''Creating nodes ... '') (
     let source = PnodeSource_ctor in
     bindP (create_relays [0..pnode_kNumRelays - 1]) (\<lambda>relays.
     seqP (print (endl @ ''All nodes ready. Start spinning...'' @ endl)) (
     returnP (source, relays))))"

text \<open>
  The running system: the source, the relays, the queue of each topic's subscription, the sink, how the
  process has ended, the last reading of the steady clock, and the history of what the
  source published and what the sink's callback was given.
\<close>

record pubsub =
  src :: PnodeSource
  relays :: "PnodeRelay list"
  queue :: "string \<Rightarrow> Timing list"
  snk :: sink_state
  ended :: "stop option"
  clock :: int64
  published :: "Timing list"
  received :: "Timing list"

definition pnode_start :: "PnodeSource \<Rightarrow> PnodeRelay list \<Rightarrow> sink_state \<Rightarrow> pubsub" where
  "pnode_start source rs k = \<lparr>src = source, relays = rs, queue = (\<lambda>_. []), snk = k, ended = None,
     clock = i64 0, published = [], received = []\<rparr>"

text \<open>
  What a publication does to the queue of its topic is the middleware's choice, within the
  laws of \<open>topic_queue\<close> at the depth that \<open>get_qos\<close> asks for. \<open>pnode_push\<close> is one such choice.
\<close>

type_synonym push = "Timing list \<Rightarrow> Timing \<Rightarrow> Timing list"

definition pnode_push :: push where
  "pnode_push = keep_last (history_depth get_qos)"

interpretation pnode_queue: topic_queue pnode_push "history_depth get_qos"
  by (simp add: pnode_push_def topic_queue_keep_last)

fun deliver :: "push \<Rightarrow> publication \<Rightarrow> pubsub \<Rightarrow> pubsub" where
  "deliver push (topic, t) s = s\<lparr>queue := (queue s)(topic := push (queue s topic) t)\<rparr>"

definition take_from :: "string \<Rightarrow> pubsub \<Rightarrow> pubsub" where
  "take_from topic s = s\<lparr>queue := (queue s)(topic := tl (queue s topic))\<rparr>"

inductive pnode_step :: "pubsub \<Rightarrow> pubsub \<Rightarrow> bool" where
  timer: "\<lbrakk>ended s = None; ival (clock s) \<le> ival now; topic_queue push (history_depth get_qos);
     PnodeSource_publish now (src s) = Some (Inr (topic, t), src')\<rbrakk> \<Longrightarrow>
     pnode_step s (deliver push (topic, t) (s\<lparr>src := src', clock := now, published := published s @ [t]\<rparr>))"
| timer_ends: "\<lbrakk>ended s = None; ival (clock s) \<le> ival now;
     PnodeSource_publish now (src s) = Some (Inl e, src')\<rbrakk> \<Longrightarrow>
     pnode_step s (s\<lparr>src := src', clock := now, ended := Some e\<rparr>)"
| relay: "\<lbrakk>ended s = None; topic_queue push (history_depth get_qos); r \<in> set (relays s);
     queue s (sub_topic r) \<noteq> []; m = hd (queue s (sub_topic r))\<rbrakk> \<Longrightarrow>
     pnode_step s (deliver push (PnodeRelay_listen r m) (take_from (sub_topic r) s))"
| sink: "\<lbrakk>ended s = None; ival (clock s) \<le> ival now; enumerates iter;
     queue s sink_topic \<noteq> []; m = hd (queue s sink_topic);
     PnodeSink_listen iter now m (snk s) = Some (Inr (), snk')\<rbrakk> \<Longrightarrow>
     pnode_step s ((take_from sink_topic s)\<lparr>snk := snk', clock := now, received := received s @ [m]\<rparr>)"
| sink_ends: "\<lbrakk>ended s = None; ival (clock s) \<le> ival now; enumerates iter;
     queue s sink_topic \<noteq> []; m = hd (queue s sink_topic);
     PnodeSink_listen iter now m (snk s) = Some (Inl e, snk')\<rbrakk> \<Longrightarrow>
     pnode_step s ((take_from sink_topic s)\<lparr>snk := snk', clock := now, received := received s @ [m],
       ended := Some e\<rparr>)"

inductive pnode_reachable :: "pubsub \<Rightarrow> bool" where
  init: "pnode_main_create empty_sink = Some (Inr (source, rs), k) \<Longrightarrow> pnode_reachable (pnode_start source rs k)"
| step: "pnode_reachable s \<Longrightarrow> pnode_step s t \<Longrightarrow> pnode_reachable t"


inductive_cases pnode_stepE: "pnode_step s t"

section \<open>Lemmas on the construction\<close>

definition relay_node :: "int \<Rightarrow> PnodeRelay" where
  "relay_node i = \<lparr>relay_name = ''relay_'' @ to_string i, index = i,
     pub_topic = ''msg_'' @ to_string (i + 1), sub_topic = ''msg_'' @ to_string i\<rparr>"

lemma PnodeRelay_ctor_index:
  assumes "- (2 ^ 31) \<le> i" and "i < 2 ^ 31 - 1"
  shows "PnodeRelay_ctor [to_string i] = Inr (relay_node i)"
proof -
  have "stoi (to_string i) = Inr i"
    using assms by (simp add: stoi_to_string)
  with assms show ?thesis
    by (simp add: PnodeRelay_ctor_def vector_at_def check_int_def relay_node_def)
qed

lemma create_relays_index:
  assumes "\<forall>i \<in> set is. 0 \<le> i \<and> i < 2 ^ 31 - 1"
  shows "create_relays is k = Some (Inr (map relay_node is),
    k\<lparr>cout := cout k @ concat (map (\<lambda>i. to_string i @ '', '') is)\<rparr>)"
  using assms
  by (induction "is" arbitrary: k) (simp_all add: PnodeRelay_ctor_index prog_defs print_def)

definition startup_text :: string where
  "startup_text = ''Creating nodes ... '' @ concat (map (\<lambda>i. to_string i @ '', '') [0..19]) @
     endl @ ''All nodes ready. Start spinning...'' @ endl"

lemma pnode_main_create_eq:
  "pnode_main_create empty_sink = Some (Inr (PnodeSource_ctor, map relay_node [0..19]),
     \<lparr>sink_data = {#}, cout = startup_text\<rparr>)"
proof -
  have "create_relays [0..19] k = Some (Inr (map relay_node [0..19]),
      k\<lparr>cout := cout k @ concat (map (\<lambda>i. to_string i @ '', '') [0..19])\<rparr>)" for k
    by (rule create_relays_index) auto
  then show ?thesis
    by (simp add: pnode_main_create_def pnode_kNumRelays_def prog_defs print_def empty_sink_def
        startup_text_def del: upto.simps)
qed

definition pnode_init :: pubsub where
  "pnode_init = pnode_start PnodeSource_ctor (map relay_node [0..19]) \<lparr>sink_data = {#}, cout = startup_text\<rparr>"

lemma pnode_init_reachable: "pnode_reachable pnode_init"
  unfolding pnode_init_def by (rule pnode_reachable.init [OF pnode_main_create_eq])

definition topic :: "nat \<Rightarrow> string" where
  "topic i = ''msg_'' @ to_string (int i)"

lemma topic_inject [simp]: "topic i = topic j \<longleftrightarrow> i = j"
  by (simp add: topic_def)

lemma sink_topic_eq: "sink_topic = topic 20"
  by (simp add: sink_topic_def topic_def pnode_kNumRelays_def)

lemma source_topic_eq: "''msg_0'' = topic 0"
  by (simp add: topic_def show_digits)

lemma relay_topics:
  assumes "relays s = map relay_node [0..19]" and "r \<in> set (relays s)"
  obtains i where "i < 20" "sub_topic r = topic i" "pub_topic r = topic (Suc i)"
proof -
  from assms obtain j where "0 \<le> j" "j \<le> 19" "r = relay_node j"
    by (auto simp del: upto.simps)
  then show thesis
    by (intro that [of "nat j"]) (auto simp: relay_node_def topic_def add.commute)
qed

text \<open>The queues of the topics, by number.\<close>

definition topic_queues :: "pubsub \<Rightarrow> nat \<Rightarrow> Timing list" where
  "topic_queues s i = queue s (topic i)"

lemma topic_queues_cong: "queue t = queue s \<Longrightarrow> topic_queues t = topic_queues s"
  by (simp add: topic_queues_def fun_eq_iff)

lemma topic_queues_deliver [simp]:
  "topic_queues (deliver push (topic i, m) s) = (topic_queues s)(i := push (topic_queues s i) m)"
  by (simp add: topic_queues_def fun_eq_iff)

lemma topic_queues_take [simp]:
  "topic_queues (take_from (topic i) s) = (topic_queues s)(i := tl (topic_queues s i))"
  by (simp add: topic_queues_def take_from_def fun_eq_iff)

lemma topic_queues_simps [simp]:
  "topic_queues (s\<lparr>src := p, clock := c, published := ps\<rparr>) = topic_queues s"
  "topic_queues (s\<lparr>src := p, clock := c, ended := e\<rparr>) = topic_queues s"
  "topic_queues (s\<lparr>snk := k, clock := c, received := rs\<rparr>) = topic_queues s"
  "topic_queues (s\<lparr>snk := k, clock := c, received := rs, ended := e\<rparr>) = topic_queues s"
  by (simp_all add: topic_queues_def fun_eq_iff)

lemma history_simps [simp]:
  "published (deliver push p s) = published s" "received (deliver push p s) = received s"
  "published (take_from tp s) = published s" "received (take_from tp s) = received s"
  by (cases p; simp add: take_from_def)+

section \<open>Invariants\<close>

lemma PnodeSource_publish_eq:
  "PnodeSource_publish now p =
     (if in_i64 (ival (source_msgid p) + 1)
      then Some (Inr (source_topic p, \<lparr>t_msgid = i64 (ival (source_msgid p) + 1), t_nanosec = now,
             t_source = ''pnode publisher''\<rparr>), p\<lparr>source_msgid := i64 (ival (source_msgid p) + 1)\<rparr>)
      else Some (Inl (Undef Signed_overflow), p))"
proof -
  have "ival (i64 1) = 1"
    by (simp add: ival_i64 in_i64_def)
  then show ?thesis
    by (simp add: PnodeSource_publish_def prog_defs add_i64_def check_i64_def Timing_new_def Let_def)
qed

lemma PnodeRelay_listen_eq: "PnodeRelay_listen r m = (pub_topic r, m)"
  by (simp add: PnodeRelay_listen_def)

text \<open>The source: it publishes under its own name on the first topic, with ids from 1 on.\<close>

definition source_inv :: "pubsub \<Rightarrow> bool" where
  "source_inv s \<longleftrightarrow> relays s = map relay_node [0..19] \<and> source_topic (src s) = topic 0 \<and>
     ival (source_msgid (src s)) = int (length (published s)) \<and>
     map (\<lambda>t. ival (t_msgid t)) (published s) = map int [1..<Suc (length (published s))] \<and>
     0 \<le> ival (clock s) \<and>
     (\<forall>t \<in> set (published s). t_source t = ''pnode publisher'' \<and>
        0 \<le> ival (t_nanosec t) \<and> ival (t_nanosec t) \<le> ival (clock s))"

text \<open>
  The system as a channel: sent is what the source published, in transit all queues from
  the sink's back to the first, arrived what the sink's callback was given.
\<close>

definition transit :: "pubsub \<Rightarrow> Timing channel" where
  "transit s = \<lparr>sent = published s, pending = pipeline (topic_queues s), arrived = received s\<rparr>"

definition queue_inv :: "pubsub \<Rightarrow> bool" where
  "queue_inv s \<longleftrightarrow> (\<forall>i. length (queue s i) \<le> history_depth get_qos)"

text \<open>The sink: one sample per message; the process ends only at the thousandth or when the ids run out.\<close>

definition sink_inv :: "pubsub \<Rightarrow> bool" where
  "sink_inv s \<longleftrightarrow> size (sink_data (snk s)) = length (received s) \<and>
     (case ended s of
        None \<Rightarrow> length (received s) < 1000 \<and> cout (snk s) = startup_text
      | Some e \<Rightarrow>
          e = Exit 0 \<and> length (received s) = 1000 \<and> cout (snk s) = startup_text @ stats_report (sink_data (snk s)) \<or>
          e = Undef Signed_overflow \<and> length (published s) = 2 ^ 63 - 1 \<and> length (received s) < 1000 \<and>
          cout (snk s) = startup_text)"

definition pnode_inv :: "pubsub \<Rightarrow> bool" where
  "pnode_inv s \<longleftrightarrow> source_inv s \<and> channel_ok (transit s) \<and> queue_inv s \<and> sink_inv s"

lemmas inv_defs = source_inv_def channel_ok_def transit_def queue_inv_def sink_inv_def

lemma source_inv_step: "pnode_step s t \<Longrightarrow> source_inv s \<Longrightarrow> source_inv t"
proof (induction rule: pnode_step.induct)
  case (timer s now push tp t src')
  then have k: "in_i64 (1 + int (length (published s)))"
    and t: "t = \<lparr>t_msgid = i64 (1 + int (length (published s))), t_nanosec = now, t_source = ''pnode publisher''\<rparr>"
      "src' = (src s)\<lparr>source_msgid := i64 (1 + int (length (published s)))\<rparr>"
    by (auto simp: PnodeSource_publish_eq source_inv_def add.commute split: if_splits)
  show ?case
    using timer(2,5) by (auto simp: source_inv_def t ival_i64 [OF k] upt_Suc_append add.commute simp del: upt_Suc)
next
  case (timer_ends s now e src')
  then show ?case
    by (auto simp: source_inv_def PnodeSource_publish_eq split: if_splits)
next
  case (relay s push r m)
  then show ?case
    by (auto simp: source_inv_def PnodeRelay_listen_eq take_from_def)
next
  case (sink s now iter m snk')
  then show ?case
    by (auto simp: source_inv_def take_from_def)
next
  case (sink_ends s now iter m e snk')
  then show ?case
    by (auto simp: source_inv_def take_from_def)
qed

lemma queue_inv_deliver:
  assumes "topic_queue push (history_depth get_qos)" and "queue_inv s"
  shows "queue_inv (deliver push p s)"
  using assms by (cases p) (auto simp: queue_inv_def intro: topic_queue.push_bound)

lemma queue_inv_take: "queue_inv s \<Longrightarrow> queue_inv (take_from tp s)"
  by (auto simp: queue_inv_def take_from_def intro: order_trans [OF diff_le_self])

lemma queue_inv_cong: "queue t = queue s \<Longrightarrow> queue_inv s \<Longrightarrow> queue_inv t"
  by (simp add: queue_inv_def)

lemma queue_inv_step: "pnode_step s t \<Longrightarrow> queue_inv s \<Longrightarrow> queue_inv t"
proof (induction rule: pnode_step.induct)
  case (timer s now push tp t src')
  show ?case
    using timer(3) by (rule queue_inv_deliver) (rule queue_inv_cong [OF _ timer(5)], simp)
next
  case (timer_ends s now e src')
  then show ?case
    by (auto intro: queue_inv_cong [of _ s])
next
  case (relay s push r m)
  then show ?case
    by (intro queue_inv_deliver queue_inv_take)
next
  case (sink s now iter m snk')
  show ?case
    by (rule queue_inv_cong [OF _ queue_inv_take [OF sink(7), of sink_topic]]) simp
next
  case (sink_ends s now iter m e snk')
  show ?case
    by (rule queue_inv_cong [OF _ queue_inv_take [OF sink_ends(7), of sink_topic]]) simp
qed

text \<open>Every step of the system is a number of steps of the channel.\<close>

lemma pnode_step_channel:
  assumes "pnode_step s t" and "source_inv s"
  shows "channel_step\<^sup>*\<^sup>* (transit s) (transit t)"
  using assms
proof (induction rule: pnode_step.induct)
  case (timer s now push tp t src')
  then have tp: "tp = topic 0"
    by (auto simp: PnodeSource_publish_eq source_inv_def split: if_splits)
  have "subseq (pipeline ((topic_queues s)(0 := push (topic_queues s 0) t)))
      (pipeline (topic_queues s) @ [t])"
    using topic_queue.send [OF timer(3), of "\<lambda>m. m" "topic_queues s" t] by simp
  from channel_steps_send [OF this, of "transit s"] show ?case
    by (simp add: transit_def tp del: deliver.simps)
next
  case (timer_ends s now e src')
  then show ?case by (simp add: transit_def)
next
  case (relay s push r m)
  obtain i where i: "i < 20" "sub_topic r = topic i" "pub_topic r = topic (Suc i)"
    using relay(3,6) relay_topics by (metis source_inv_def)
  let ?q = "topic_queues s"
  have q: "?q i = m # tl (?q i)"
    using relay(4,5) i(2) by (simp add: topic_queues_def)
  have "subseq (pipeline (?q(i := tl (?q i), Suc i := push (?q (Suc i)) m))) (pipeline ?q)"
    using topic_queue.hop [OF relay(2) i(1), of ?q m "tl (?q i)" "\<lambda>m. m" m] q by simp
  with channel_steps_lose [of _ "transit s"] show ?case
    by (simp add: transit_def PnodeRelay_listen_eq i del: deliver.simps)
next
  case (sink s now iter m snk')
  then have "topic_queues s 20 = m # tl (topic_queues s 20)"
    by (simp add: topic_queues_def sink_topic_eq)
  then have "pipeline (topic_queues s) = m # pipeline ((topic_queues s)(20 := tl (topic_queues s 20)))"
    by (rule pipeline_arrive)
  from channel_arrive [OF this, of "transit s"] show ?case
    by (simp add: transit_def sink_topic_eq)
next
  case (sink_ends s now iter m e snk')
  then have "topic_queues s 20 = m # tl (topic_queues s 20)"
    by (simp add: topic_queues_def sink_topic_eq)
  then have "pipeline (topic_queues s) = m # pipeline ((topic_queues s)(20 := tl (topic_queues s 20)))"
    by (rule pipeline_arrive)
  from channel_arrive [OF this, of "transit s"] show ?case
    by (simp add: transit_def sink_topic_eq)
qed

lemma sink_gets_published:
  assumes "source_inv s" and "channel_ok (transit s)" and "queue s sink_topic \<noteq> []" and "m = hd (queue s sink_topic)"
  shows "0 \<le> ival (t_nanosec m) \<and> ival (t_nanosec m) \<le> ival (clock s)"
proof -
  have "m \<in> set (topic_queues s 20)"
    using assms(3,4) by (simp add: topic_queues_def sink_topic_eq)
  then have "m \<in> set (pipeline (topic_queues s))"
    by (auto simp: set_pipeline)
  then have "m \<in> set (published s)"
    using assms(2) subseq_set [of "received s @ pipeline (topic_queues s)" "published s"]
    by (auto simp: channel_ok_def transit_def)
  with assms(1) show ?thesis
    by (simp add: source_inv_def)
qed

lemma sink_inv_step:
  assumes "pnode_step s t" and "source_inv s" and "channel_ok (transit s)" and "sink_inv s"
  shows "sink_inv t"
  using assms
proof (induction rule: pnode_step.induct)
  case (timer s now push tp t src')
  then show ?case by (simp add: sink_inv_def)
next
  case (timer_ends s now e src')
  then have "\<not> in_i64 (int (length (published s)) + 1)" and e: "e = Undef Signed_overflow"
    by (auto simp: source_inv_def PnodeSource_publish_eq split: if_splits)
  moreover have "in_i64 (int (length (published s)))"
    using timer_ends(4) in_i64_ival by (metis source_inv_def)
  ultimately have "length (published s) = 2 ^ 63 - 1"
    by (simp add: in_i64_def)
  with timer_ends e show ?case
    by (simp add: sink_inv_def)
next
  case (relay s push r m)
  then show ?case by (simp add: sink_inv_def PnodeRelay_listen_eq take_from_def)
next
  case (sink s now iter m snk')
  from sink.prems sink.hyps have lat: "PnodeSink_listen iter now m (snk s) =
      sink_outcome (\<lambda>_. []) () (per_hop (i64 21) now (t_nanosec m)) (snk s)"
    by (simp add: PnodeSink_listen_cases pnode_hops sink_inv_def)
  with sink show ?case
    by (auto simp: sink_inv_def take_from_def sink_outcome_def Let_def split: sum.splits if_splits)
next
  case (sink_ends s now iter m e snk')
  from sink_ends.prems sink_ends.hyps have lat: "PnodeSink_listen iter now m (snk s) =
      sink_outcome (\<lambda>_. []) () (per_hop (i64 21) now (t_nanosec m)) (snk s)"
    by (simp add: PnodeSink_listen_cases pnode_hops sink_inv_def)
  have "0 \<le> ival (t_nanosec m)" "ival (t_nanosec m) \<le> ival now"
    using sink_gets_published [OF sink_ends(7,8,4,5)] sink_ends(2) by auto
  then obtain x where "per_hop (i64 21) now (t_nanosec m) = Inr x"
    using per_hop_monotone_clock [of "i64 21" "t_nanosec m" now] pnode_hops by auto
  with sink_ends lat show ?case
    by (auto simp: sink_inv_def take_from_def sink_outcome_def Let_def split: if_splits)
qed

lemma topic_queues_start [simp]: "queue s = (\<lambda>_. []) \<Longrightarrow> topic_queues s = (\<lambda>_. [])"
  by (simp add: topic_queues_def fun_eq_iff)

lemma pnode_reachable_inv: "pnode_reachable s \<Longrightarrow> pnode_inv s"
proof (induction rule: pnode_reachable.induct)
  case (init source rs k)
  then show ?case
    by (auto simp: pnode_main_create_eq pnode_inv_def inv_defs pnode_start_def PnodeSource_ctor_def pipeline_empty
        source_topic_eq simp del: upto.simps)
next
  case (step s t)
  then show ?case
    by (simp add: pnode_inv_def)
      (meson source_inv_step pnode_step_channel channel_steps_ok queue_inv_step sink_inv_step)
qed


text \<open>Every sample is within the clock.\<close>

lemma PnodeSink_listen_within:
  assumes "pnode_inv s" and "queue s sink_topic \<noteq> []" and "m = hd (queue s sink_topic)" and "ended s = None"
    and "enumerates iter" and "ival (clock s) \<le> ival now" and "PnodeSink_listen iter now m (snk s) = Some (r, k)"
    and "samples_within (clock s) (snk s)"
  shows "samples_within now k"
proof (rule sink_outcome_within)
  show "sink_outcome (\<lambda>_. []) () (per_hop (i64 21) now (t_nanosec m)) (snk s) = Some (r, k)"
    using assms by (simp add: PnodeSink_listen_cases pnode_hops pnode_inv_def sink_inv_def)
  show "samples_within now (snk s)"
    using assms(8,6) by (rule samples_within_mono)
  show "0 \<le> ival (t_nanosec m)" "ival (t_nanosec m) \<le> ival now"
    using sink_gets_published [of s m] assms by (auto simp: pnode_inv_def)
qed

lemma pnode_within_step:
  "pnode_step s t \<Longrightarrow> pnode_inv s \<Longrightarrow> samples_within (clock s) (snk s) \<Longrightarrow> samples_within (clock t) (snk t)"
proof (induction rule: pnode_step.induct)
  case (relay s push r m)
  then show ?case by (simp add: PnodeRelay_listen_eq take_from_def)
qed (simp_all add: samples_within_mono PnodeSink_listen_within)

lemma pnode_within: "pnode_reachable s \<Longrightarrow> samples_within (clock s) (snk s)"
proof (induction rule: pnode_reachable.induct)
  case (init source rs k)
  then show ?case by (auto simp: pnode_main_create_eq pnode_start_def samples_within_def)
next
  case (step s t)
  then show ?case using pnode_within_step pnode_reachable_inv by blast
qed

section \<open>A run that ends\<close>

text \<open>
  The system can reach its end: the schedule that lets every message travel to the sink
  before the next one is published. A message moves one hop per step of a relay.
\<close>

definition idle :: "nat \<Rightarrow> pubsub \<Rightarrow> bool" where
  "idle n s \<longleftrightarrow> pnode_reachable s \<and> ended s = None \<and> (\<forall>i. queue s (topic i) = []) \<and>
     length (received s) = n \<and> length (published s) = n \<and> clock s = i64 0"

text \<open>One message in transit, at hop \<open>k\<close>.\<close>

definition travelling :: "nat \<Rightarrow> nat \<Rightarrow> Timing \<Rightarrow> pubsub \<Rightarrow> bool" where
  "travelling n k t s \<longleftrightarrow> pnode_reachable s \<and> ended s = None \<and>
     (\<forall>i. queue s (topic i) = (if i = k then [t] else [])) \<and>
     length (received s) = n \<and> length (published s) = Suc n \<and> clock s = i64 0 \<and> t_nanosec t = i64 0"

lemma pnode_push_empty: "pnode_push [] t = [t]"
  by (simp add: pnode_push_def get_qos_def keep_last_def)

lemma publish_travelling:
  assumes "idle n s" and "n < 1000"
  shows "\<exists>t s'. travelling n 0 t s'"
proof -
  have inv: "source_inv s"
    using assms pnode_reachable_inv by (auto simp: idle_def pnode_inv_def)
  let ?k = "i64 (ival (source_msgid (src s)) + 1)"
  let ?t = "\<lparr>t_msgid = ?k, t_nanosec = i64 0, t_source = ''pnode publisher''\<rparr>"
  have "in_i64 (ival (source_msgid (src s)) + 1)"
    using inv assms by (simp add: source_inv_def idle_def in_i64_def)
  then have "PnodeSource_publish (i64 0) (src s) =
      Some (Inr (topic 0, ?t), (src s)\<lparr>source_msgid := ?k\<rparr>)"
    using inv by (simp add: PnodeSource_publish_eq source_inv_def)
  then have "pnode_step s (deliver pnode_push (topic 0, ?t) (s\<lparr>src := (src s)\<lparr>source_msgid := ?k\<rparr>,
      clock := i64 0, published := published s @ [?t]\<rparr>))"
    using assms by (intro pnode_step.timer [OF _ _ pnode_queue.topic_queue_axioms]) (simp_all add: idle_def)
  then have "travelling n 0 ?t (deliver pnode_push (topic 0, ?t) (s\<lparr>src := (src s)\<lparr>source_msgid := ?k\<rparr>,
      clock := i64 0, published := published s @ [?t]\<rparr>))"
    using assms by (auto simp: travelling_def idle_def pnode_push_empty intro: pnode_reachable.step)
  then show ?thesis
    by blast
qed

lemma relay_travelling:
  assumes "travelling n k t s" and "k < 20"
  shows "\<exists>s'. travelling n (Suc k) t s'"
proof -
  let ?r = "relay_node (int k)"
  have r: "sub_topic ?r = topic k" "pub_topic ?r = topic (Suc k)"
    by (simp_all add: relay_node_def topic_def add.commute)
  have "source_inv s"
    using assms(1) pnode_reachable_inv by (auto simp: travelling_def pnode_inv_def)
  then have "?r \<in> set (relays s)"
    using assms(2) by (auto simp: source_inv_def simp del: upto.simps)
  then have "pnode_step s (deliver pnode_push (PnodeRelay_listen ?r t) (take_from (sub_topic ?r) s))"
    using assms r by (intro pnode_step.relay [OF _ pnode_queue.topic_queue_axioms]) (auto simp: travelling_def)
  moreover have "travelling n (Suc k) t (deliver pnode_push (PnodeRelay_listen ?r t) (take_from (sub_topic ?r) s))"
    using assms calculation
    by (auto simp: travelling_def PnodeRelay_listen_eq take_from_def r pnode_push_empty
        intro: pnode_reachable.step)
  ultimately show ?thesis
    by blast
qed

lemma relays_travelling: "travelling n 0 t s \<Longrightarrow> k \<le> 20 \<Longrightarrow> \<exists>s'. travelling n k t s'"
proof (induction k)
  case 0
  then show ?case by blast
next
  case (Suc k)
  then obtain s' where "travelling n k t s'"
    by auto
  with Suc.prems show ?case
    by (intro relay_travelling) simp_all
qed

lemma sink_travelling:
  assumes "travelling n 20 t s"
  shows "if n < 999 then \<exists>s'. idle (Suc n) s' else \<exists>s'. pnode_reachable s' \<and> ended s' = Some (Exit 0) \<and> length (published s') = Suc n"
proof -
  have inv: "sink_inv s"
    using assms pnode_reachable_inv [of s] by (simp add: travelling_def pnode_inv_def)
  then have size: "size (sink_data (snk s)) = n"
    using assms by (simp add: travelling_def sink_inv_def)
  obtain x where x: "per_hop (i64 21) (i64 0) (t_nanosec t) = Inr x"
    using per_hop_monotone_clock [of "i64 21" "i64 0" "i64 0"] pnode_hops assms
    by (auto simp: travelling_def)
  have out: "PnodeSink_listen sorted_list_of_multiset (i64 0) t (snk s) =
      sink_outcome (\<lambda>_. []) () (Inr x) (snk s)"
    using size inv assms x
    by (simp add: PnodeSink_listen_cases enumerates_sorted_list pnode_hops sink_inv_def travelling_def)
  have q: "queue s sink_topic = [t]"
    using assms by (simp add: travelling_def sink_topic_eq)
  show ?thesis
  proof (cases "n < 999")
    case True
    then obtain k where k: "PnodeSink_listen sorted_list_of_multiset (i64 0) t (snk s) = Some (Inr (), k)"
      using out size by (simp add: sink_outcome_def Let_def)
    have "pnode_step s ((take_from sink_topic s)\<lparr>snk := k, clock := i64 0, received := received s @ [t]\<rparr>)"
      using assms q by (intro pnode_step.sink [OF _ _ enumerates_sorted_list _ _ k]) (simp_all add: travelling_def)
    then have "idle (Suc n) ((take_from sink_topic s)\<lparr>snk := k, clock := i64 0, received := received s @ [t]\<rparr>)"
      using assms by (auto simp: idle_def travelling_def take_from_def sink_topic_eq intro: pnode_reachable.step)
    with True show ?thesis
      by auto
  next
    case False
    then obtain k where k: "PnodeSink_listen sorted_list_of_multiset (i64 0) t (snk s) = Some (Inl (Exit 0), k)"
      using out size by (simp add: sink_outcome_def Let_def)
    let ?u = "(take_from sink_topic s)\<lparr>snk := k, clock := i64 0, received := received s @ [t],
        ended := Some (Exit 0)\<rparr>"
    have "pnode_step s ?u"
      using assms q by (intro pnode_step.sink_ends [OF _ _ enumerates_sorted_list _ _ k]) (simp_all add: travelling_def)
    with assms have "pnode_reachable ?u"
      by (auto simp: travelling_def intro: pnode_reachable.step)
    moreover have "ended ?u = Some (Exit 0)" "length (published ?u) = Suc n"
      using assms by (simp_all add: travelling_def take_from_def)
    ultimately have "\<exists>s'. pnode_reachable s' \<and> ended s' = Some (Exit 0) \<and> length (published s') = Suc n"
      by blast
    with False show ?thesis
      by simp
  qed
qed

lemma idle_reachable: "n < 1000 \<Longrightarrow> \<exists>s. idle n s"
proof (induction n)
  case 0
  have "idle 0 pnode_init"
    using pnode_init_reachable by (simp add: idle_def pnode_init_def pnode_start_def)
  then show ?case by blast
next
  case (Suc n)
  then obtain t s' where "travelling n 0 t s'"
    using publish_travelling [of n] by fastforce
  then obtain s'' where "travelling n 20 t s''"
    using relays_travelling [of n t s' 20] by auto
  with Suc.prems show ?case
    using sink_travelling [of n t s''] by simp
qed

lemma end_reachable: "\<exists>s. pnode_reachable s \<and> ended s = Some (Exit 0) \<and> length (published s) = 1000"
proof -
  obtain s where "idle 999 s"
    using idle_reachable [of 999] by auto
  then obtain t s' where "travelling 999 0 t s'"
    using publish_travelling [of 999] by fastforce
  then obtain s'' where "travelling 999 20 t s''"
    using relays_travelling [of 999 t s' 20] by auto
  then show ?thesis
    using sink_travelling [of 999 t s''] by simp
qed

text \<open>The first step of the source, for the witnesses.\<close>

definition first_message :: Timing where
  "first_message = \<lparr>t_msgid = i64 1, t_nanosec = i64 5, t_source = ''pnode publisher''\<rparr>"

definition pnode_first :: pubsub where
  "pnode_first = deliver pnode_push (topic 0, first_message)
     (pnode_init\<lparr>src := PnodeSource_ctor\<lparr>source_msgid := i64 1\<rparr>, clock := i64 5,
        published := published pnode_init @ [first_message]\<rparr>)"

lemma first_publish:
  "PnodeSource_publish (i64 5) (src pnode_init) =
     Some (Inr (topic 0, first_message), PnodeSource_ctor\<lparr>source_msgid := i64 1\<rparr>)"
proof -
  have "ival (i64 0) = 0"
    by (simp add: ival_i64 in_i64_def)
  then show ?thesis
    by (simp add: PnodeSource_publish_eq pnode_init_def pnode_start_def PnodeSource_ctor_def
        first_message_def source_topic_eq in_i64_def)
qed

lemma pnode_first_step: "pnode_step pnode_init pnode_first"
proof -
  have "ival (clock pnode_init) \<le> ival (i64 5)" "ended pnode_init = None"
    by (simp_all add: pnode_init_def pnode_start_def ival_i64 in_i64_def)
  then show ?thesis
    unfolding pnode_first_def
    by (intro pnode_step.timer [OF _ _ pnode_queue.topic_queue_axioms first_publish])
qed

section \<open>Properties\<close>

text \<open>
  C3: the chain of nodes implements one FIFO channel from the source to the sink that may
  lose messages: in every reachable state, each step of the system is a number of steps of
  the channel whose sent messages are the source's, whose messages in transit are those of
  the 21 queues, and whose arrived messages are those given to the sink.
\<close>

theorem pnode_refines_channel:
  assumes "pnode_reachable s" and "pnode_step s t"
  shows "channel_step\<^sup>*\<^sup>* (transit s) (transit t)"
  using assms pnode_reachable_inv [of s] by (simp add: pnode_inv_def pnode_step_channel)

theorem pnode_refines_channel_witness:
  "channel_step\<^sup>*\<^sup>* (transit pnode_init) (transit pnode_first) \<and> sent (transit pnode_first) = [first_message]"
proof
  show "channel_step\<^sup>*\<^sup>* (transit pnode_init) (transit pnode_first)"
    by (rule pnode_refines_channel [OF pnode_init_reachable pnode_first_step])
  show "sent (transit pnode_first) = [first_message]"
    by (simp add: transit_def pnode_first_def pnode_init_def pnode_start_def)
qed

text \<open>
  C4: what the sink is given are messages of the source, unchanged, in the order of their
  ids and none twice; all of them carry the source's name, so no relay's own name ever
  arrives. No queue holds more messages than the history depth of \<open>get_qos\<close>.
\<close>

theorem pnode_received:
  assumes "pnode_reachable s"
  shows "subseq (received s) (published s) \<and>
    sorted_wrt (<) (map (\<lambda>t. ival (t_msgid t)) (received s)) \<and>
    (\<forall>t \<in> set (received s). t_source t = ''pnode publisher'') \<and>
    (\<forall>i. length (queue s i) \<le> 10)"
proof -
  from assms have inv: "pnode_inv s"
    by (rule pnode_reachable_inv)
  then have sub: "subseq (received s) (published s)"
    by (auto simp: pnode_inv_def channel_ok_def transit_def intro: subseq_order.trans [rotated])
  have "sorted_wrt (<) (map (\<lambda>t. ival (t_msgid t)) (published s))"
    using inv by (simp add: pnode_inv_def source_inv_def sorted_wrt_map del: upt_Suc)
  then have "sorted_wrt (<) (map (\<lambda>t. ival (t_msgid t)) (received s))"
    using subseq_map [OF sub, of "\<lambda>t. ival (t_msgid t)"] sorted_wrt_subseq by blast
  moreover have "\<forall>t \<in> set (received s). t_source t = ''pnode publisher''"
    using inv subseq_set [OF sub] by (auto simp: pnode_inv_def source_inv_def)
  ultimately show ?thesis
    using inv sub by (simp add: pnode_inv_def queue_inv_def get_qos_def)
qed

theorem pnode_received_witness:
  "length (queue pnode_first (topic 0)) = 1 \<and> (\<forall>i. length (queue pnode_first i) \<le> 10)"
  using pnode_received [OF pnode_reachable.step [OF pnode_init_reachable pnode_first_step]]
  by (simp add: pnode_first_def pnode_init_def pnode_start_def pnode_push_empty)

text \<open>
  C6: the process ends only in two ways: with code 0 in the sink's callback on exactly the
  thousandth message, after the start-up text and the report of the thousand samples; or
  when the source has used up its 64-bit ids, which is undefined behaviour.
\<close>

theorem pnode_ends:
  assumes "pnode_reachable s" and "ended s = Some e"
  shows "e = Exit 0 \<and> length (received s) = 1000 \<and> size (sink_data (snk s)) = 1000 \<and>
      cout (snk s) = startup_text @ stats_report (sink_data (snk s)) \<or>
    e = Undef Signed_overflow \<and> length (published s) = 2 ^ 63 - 1 \<and> cout (snk s) = startup_text"
  using pnode_reachable_inv [OF assms(1)] assms(2) by (auto simp: pnode_inv_def sink_inv_def)

theorem pnode_ends_witness:
  "\<exists>s. pnode_reachable s \<and> ended s = Some (Exit 0) \<and>
     cout (snk s) = startup_text @ stats_report (sink_data (snk s))"
proof -
  obtain s where "pnode_reachable s" "ended s = Some (Exit 0)"
    using end_reachable by blast
  with pnode_ends [OF this] show ?thesis
    by auto
qed

text \<open>
  C30: from the start-up of \<open>main\<close> the system can reach its regular end, with code 0 and
  after publishing no more than the thousand messages it reports on.
\<close>

theorem pnode_can_end: "\<exists>s. pnode_reachable s \<and> ended s = Some (Exit 0) \<and> length (published s) = 1000"
  by (rule end_reachable)

text \<open>
  A relay constructed from the decimal text of an integer subscribes to the topic of
  that number and publishes on the next one; numbers that are no \<open>int\<close> make \<open>std::stoi\<close>
  throw, and at the largest \<open>int\<close> the next topic's number overflows.
\<close>

theorem PnodeRelay_ctor_spec:
  "PnodeRelay_ctor [to_string i] =
     (if i < - (2 ^ 31) \<or> 2 ^ 31 \<le> i then Inl (Throw (Out_of_range ''stoi''))
      else if i = 2 ^ 31 - 1 then Inl (Undef Signed_overflow)
      else Inr \<lparr>relay_name = ''relay_'' @ to_string i, index = i,
             pub_topic = ''msg_'' @ to_string (i + 1), sub_topic = ''msg_'' @ to_string i\<rparr>)"
  by (auto simp: PnodeRelay_ctor_def vector_at_def check_int_def stoi_to_string)

text \<open>
  The publish/subscribe sink's callback on every branch: overflow is undefined
  behaviour; otherwise the sample is stored, and from the thousandth on the report is
  written and the process exits with code 0.
\<close>

theorem PnodeSink_listen_spec:
  assumes "enumerates iter" and "size (sink_data s) < 2 ^ 26"
  shows "PnodeSink_listen iter now m s =
    (if \<not> in_i64 (ival now - ival (t_nanosec m)) then Some (Inl (Undef Signed_overflow), s)
     else let M = add_mset (i64 ((ival now - ival (t_nanosec m)) sdiv 21)) (sink_data s)
          in if size M < 1000 then Some (Inr (), \<lparr>sink_data = M, cout = cout s\<rparr>)
             else Some (Inl (Exit 0), \<lparr>sink_data = M, cout = cout s @ stats_report M\<rparr>))"
  using assms
  by (simp add: PnodeSink_listen_cases pnode_hops sink_outcome_def per_hop_eq Let_def)

theorem PnodeSink_listen_spec_witness:
  "PnodeSink_listen sorted_list_of_multiset (i64 2105) first_message empty_sink =
     Some (Inr (), \<lparr>sink_data = {#i64 100#}, cout = []\<rparr>)"
proof -
  have "ival (i64 2105) = 2105" "ival (i64 5) = 5"
    by (simp_all add: ival_i64 in_i64_def)
  then show ?thesis
    using PnodeSink_listen_spec [OF enumerates_sorted_list, of empty_sink "i64 2105" first_message]
    by (simp add: empty_sink_def first_message_def in_i64_def signed_divide_int_def)
qed

end
