(* ===== verification/Ros_Service.thy ===== *)
theory Ros_Service
  imports Ros_Types
begin

text \<open>
  \<open>psrv/src/srv.cpp\<close>: the ROS 2 service benchmark. The clients and relay services \<open>main\<close>
  creates, the callbacks of the relay services and of the sink service, the client thread,
  and their execution as a step relation: one step is one callback of one service (each
  node's callbacks are mutually exclusive) or one statement group of the client thread.
\<close>

section \<open>Messages and nodes\<close>

text \<open>\<open>pnodeif/srv/Bench.srv\<close>: a request holds a \<open>Timing\<close>, a response an id.\<close>

record Bench_Request =
  rq_timing :: Timing

record Bench_Response =
  rs_ack :: int64

definition srv_kNumRelays :: int where
  "srv_kNumRelays = 20"

definition service_name :: "int \<Rightarrow> string" where
  "service_name i = ''srv_relay_'' @ to_string i"

record ClientNode =
  client_node :: string
  client_service :: string

text \<open>A relay service: its node, the service it offers, and what its callback has captured.\<close>

record ServiceNode =
  service_node :: string
  service_offered :: string
  captured_i :: int
  captured_client :: ClientNode

definition create_client :: "int \<Rightarrow> ClientNode" where
  "create_client i = \<lparr>client_node = ''srv_client_'' @ to_string i, client_service = ''srv_relay_'' @ to_string i\<rparr>"

definition clients :: "ClientNode list" where
  "clients = map create_client [0..srv_kNumRelays]"

fun create_services :: "ClientNode list \<Rightarrow> int list \<Rightarrow> stop + ServiceNode list" where
  "create_services cs [] = Inr []"
| "create_services cs (i # is) = (case vector_at cs (i + 1) of
     Inl e \<Rightarrow> Inl e
   | Inr client \<Rightarrow> (case create_services cs is of
       Inl e \<Rightarrow> Inl e
     | Inr ss \<Rightarrow> Inr (\<lparr>service_node = ''srv_relay_'' @ to_string i, service_offered = ''srv_relay_'' @ to_string i,
           captured_i = i, captured_client = client\<rparr> # ss)))"

definition services :: "stop + ServiceNode list" where
  "services = create_services clients [0..srv_kNumRelays - 1]"

definition srv_sink_service :: string where
  "srv_sink_service = ''srv_relay_'' @ to_string srv_kNumRelays"

section \<open>Callbacks\<close>

text \<open>The request number \<open>i\<close> of the client thread, sent at clock reading \<open>now\<close>.\<close>

definition client_request :: "int \<Rightarrow> int64 \<Rightarrow> Bench_Request" where
  "client_request i now =
     (let request = \<lparr>rq_timing = Timing_new\<rparr>;
          request = request\<lparr>rq_timing := (rq_timing request)\<lparr>t_source := ''client''\<rparr>\<rparr>;
          request = request\<lparr>rq_timing := (rq_timing request)\<lparr>t_msgid := i64 i\<rparr>\<rparr>;
          request = request\<lparr>rq_timing := (rq_timing request)\<lparr>t_nanosec := now\<rparr>\<rparr>
      in request)"

text \<open>A relay's callback: its response, and the request it sends to the captured client's service.\<close>

definition relay_service :: "ServiceNode \<Rightarrow> Bench_Request \<Rightarrow> Bench_Response \<times> string \<times> Bench_Request" where
  "relay_service this request =
     (let response = \<lparr>rs_ack = t_msgid (rq_timing request)\<rparr>;
          copy = \<lparr>rq_timing = Timing_new\<rparr>;
          copy = copy\<lparr>rq_timing := (rq_timing copy)\<lparr>t_source := ''srv relay '' @ to_string (captured_i this)\<rparr>\<rparr>;
          copy = copy\<lparr>rq_timing := (rq_timing copy)\<lparr>t_msgid := t_msgid (rq_timing request)\<rparr>\<rparr>;
          copy = copy\<lparr>rq_timing := (rq_timing copy)\<lparr>t_nanosec := t_nanosec (rq_timing request)\<rparr>\<rparr>
      in (response, client_service (captured_client this), copy))"

definition srv_line :: "int64 \<Rightarrow> string" where
  "srv_line x = ''nano seconds per hop: '' @ to_string (ival x) @ endl"

text \<open>The block of the sink's callback that writes the report.\<close>

definition sink_service_stats :: "iteration \<Rightarrow> (sink_state, unit) prog" where
  "sink_service_stats iter =
     bindP (getP (\<lambda>s. sort (iter (sink_data s)))) (\<lambda>array.
     let p50_index = int_of_size (size_of (length array) div 2);
         p90_index = int_of_size (size_of (length array) * 9 div 10)
     in bindP (pureP (vector_at array p50_index)) (\<lambda>p50.
        bindP (pureP (div_i64 p50 (i64 1000))) (\<lambda>p50_us.
        bindP (pureP (vector_at array p90_index)) (\<lambda>p90.
        bindP (pureP (div_i64 p90 (i64 1000))) (\<lambda>p90_us.
        print (endl @ ''Stats with '' @ show_nat (length array) @ '' data points, ns/hop:'' @
          endl @ ''P50 = '' @ to_string (ival p50_us) @ ''us, P90 = '' @
          to_string (ival p90_us) @ ''us'' @ endl @ endl))))))"

definition sink_service :: "iteration \<Rightarrow> int64 \<Rightarrow> Bench_Request \<Rightarrow> (sink_state, Bench_Response) prog" where
  "sink_service iter now request =
     (let response = \<lparr>rs_ack = t_msgid (rq_timing request)\<rparr> in
     bindP (pureP (sub_i64 now (t_nanosec (rq_timing request)))) (\<lambda>elapsed.
     bindP (pureP (div_i64 elapsed (i64 (srv_kNumRelays + 1)))) (\<lambda>nanosec_per_hop.
     seqP (insert_sample nanosec_per_hop) (
     seqP (print (''nano seconds per hop: '' @ to_string (ival nanosec_per_hop) @ endl)) (
     bindP (getP (\<lambda>s. size (sink_data s))) (\<lambda>n.
     if 1000 \<le> n then seqP (sink_service_stats iter) (stopP (Exit 0)) else returnP response))))))"

lemma sink_service_stats_report:
  assumes "enumerates iter" and "sink_data s \<noteq> {#}" and "size (sink_data s) < 2 ^ 27"
  shows "sink_service_stats iter s = Some (Inr (), s\<lparr>cout := cout s @ stats_report (sink_data s)\<rparr>)"
  using assms
  by (simp add: sink_service_stats_def prog_defs report_simps print_def stats_report_def stats_text_def)

lemma srv_hops: "i64 (srv_kNumRelays + 1) = i64 21" "ival (i64 21) = 21"
  by (simp_all add: srv_kNumRelays_def ival_i64 in_i64_def)

lemma sink_service_cases:
  assumes "enumerates iter" and "size (sink_data s) < 2 ^ 26"
  shows "sink_service iter now m s =
    sink_outcome srv_line \<lparr>rs_ack = t_msgid (rq_timing m)\<rparr> (per_hop (i64 21) now (t_nanosec (rq_timing m))) s"
proof (cases "per_hop (i64 21) now (t_nanosec (rq_timing m))")
  case (Inl e)
  then show ?thesis
    by (auto simp: per_hop_def sink_outcome_def sink_service_def prog_defs srv_hops split: sum.splits)
next
  case (Inr x)
  then obtain d where "sub_i64 now (t_nanosec (rq_timing m)) = Inr d" "div_i64 d (i64 21) = Inr x"
    by (auto simp: per_hop_def split: sum.splits)
  with Inr assms show ?thesis
    by (cases s) (simp add: sink_service_def srv_hops sink_outcome_def prog_defs insert_sample_def
        print_def sink_service_stats_report srv_line_def Let_def)
qed

interpretation srv_sink: latency_sink sink_service "i64 21" "\<lambda>m. t_nanosec (rq_timing m)"
  "\<lambda>m. \<lparr>rs_ack = t_msgid (rq_timing m)\<rparr>" srv_line
  by (rule latency_sinkI) (rule sink_service_cases)

section \<open>The running system\<close>

text \<open>
  The client thread's progress: before its first line, waiting for the relay's service, at
  number \<open>i\<close> of its loop, and at its end.
\<close>

datatype client_phase = Starting | Waiting | Sending int | Finished

text \<open>
  The state of the process: the client thread, the relay services, the request queue of each
  service, the answers each service has given (the client nodes are in no executor, so
  nothing ever takes them), the sink's data and the output, how the process has ended, the last
  reading of the steady clock, and the history of requests the client sent and the sink got.
\<close>

record srv_system =
  phase :: client_phase
  relay_services :: "ServiceNode list"
  requests :: "string \<Rightarrow> Bench_Request list"
  answered :: "string \<Rightarrow> Bench_Response list"
  srv_data :: sink_state
  srv_ended :: "stop option"
  srv_clock :: int64
  client_sent :: "Bench_Request list"
  sink_got :: "Bench_Request list"

definition srv_start :: "ServiceNode list \<Rightarrow> srv_system" where
  "srv_start ss = \<lparr>phase = Starting, relay_services = ss, requests = (\<lambda>_. []), answered = (\<lambda>_. []),
     srv_data = empty_sink, srv_ended = None, srv_clock = i64 0, client_sent = [], sink_got = []\<rparr>"

text \<open>
  A request sent to a service joins its queue as the middleware chooses, within the laws of
  \<open>topic_queue\<close>: services keep the order of the requests of their one client, and
  may lose some. A \<open>request_push\<close> is such a choice.
\<close>

definition request_push :: "(Bench_Request list \<Rightarrow> Bench_Request \<Rightarrow> Bench_Request list) \<Rightarrow> bool" where
  "request_push push \<longleftrightarrow> (\<exists>bound. topic_queue push bound)"

definition async_send_request ::
    "(Bench_Request list \<Rightarrow> Bench_Request \<Rightarrow> Bench_Request list) \<Rightarrow> string \<Rightarrow> Bench_Request \<Rightarrow> srv_system \<Rightarrow> srv_system" where
  "async_send_request push service m s =
     s\<lparr>requests := (requests s)(service := push (requests s service) m)\<rparr>"

definition take_request :: "string \<Rightarrow> srv_system \<Rightarrow> srv_system" where
  "take_request service s = s\<lparr>requests := (requests s)(service := tl (requests s service))\<rparr>"

definition answer_with :: "string \<Rightarrow> Bench_Response \<Rightarrow> srv_system \<Rightarrow> srv_system" where
  "answer_with service r s = s\<lparr>answered := (answered s)(service := answered s service @ [r])\<rparr>"

definition say :: "string \<Rightarrow> srv_system \<Rightarrow> srv_system" where
  "say line s = s\<lparr>srv_data := (srv_data s)\<lparr>cout := cout (srv_data s) @ line\<rparr>\<rparr>"

text \<open>The client thread, one statement group at a time, on its client \<open>clients[0]\<close>.\<close>

inductive client_thread :: "srv_system \<Rightarrow> srv_system \<Rightarrow> bool" where
  begins: "phase s = Starting \<Longrightarrow>
     client_thread s (say ''Wating for relay ...'' (s\<lparr>phase := Waiting\<rparr>))"
| waits: "phase s = Waiting \<Longrightarrow> client_thread s s"
| ready: "phase s = Waiting \<Longrightarrow> client_thread s (say ('' ready.'' @ endl) (s\<lparr>phase := Sending 0\<rparr>))"
| sends: "\<lbrakk>phase s = Sending i; i < 1000; ival (srv_clock s) \<le> ival now; request_push push;
     vector_at clients 0 = Inr client\<rbrakk> \<Longrightarrow>
     client_thread s (async_send_request push (client_service client) (client_request i now)
       (s\<lparr>phase := Sending (i + 1), srv_clock := now, client_sent := client_sent s @ [client_request i now]\<rparr>))"
| finishes: "phase s = Sending i \<Longrightarrow> \<not> i < 1000 \<Longrightarrow>
     client_thread s (say (''All requests sent.'' @ endl) (s\<lparr>phase := Finished\<rparr>))"

inductive srv_step :: "srv_system \<Rightarrow> srv_system \<Rightarrow> bool" where
  client: "srv_ended s = None \<Longrightarrow> client_thread s t \<Longrightarrow> srv_step s t"
| relay: "\<lbrakk>srv_ended s = None; request_push push; r \<in> set (relay_services s);
     requests s (service_offered r) \<noteq> []; m = hd (requests s (service_offered r));
     relay_service r m = (response, target, copy)\<rbrakk> \<Longrightarrow>
     srv_step s (answer_with (service_offered r) response
       (async_send_request push target copy (take_request (service_offered r) s)))"
| sink: "\<lbrakk>srv_ended s = None; ival (srv_clock s) \<le> ival now; enumerates iter;
     requests s srv_sink_service \<noteq> []; m = hd (requests s srv_sink_service);
     sink_service iter now m (srv_data s) = Some (Inr response, k)\<rbrakk> \<Longrightarrow>
     srv_step s (answer_with srv_sink_service response
       ((take_request srv_sink_service s)\<lparr>srv_data := k, srv_clock := now, sink_got := sink_got s @ [m]\<rparr>))"
| sink_ends: "\<lbrakk>srv_ended s = None; ival (srv_clock s) \<le> ival now; enumerates iter;
     requests s srv_sink_service \<noteq> []; m = hd (requests s srv_sink_service);
     sink_service iter now m (srv_data s) = Some (Inl e, k)\<rbrakk> \<Longrightarrow>
     srv_step s ((take_request srv_sink_service s)\<lparr>srv_data := k, srv_clock := now,
       sink_got := sink_got s @ [m], srv_ended := Some e\<rparr>)"

inductive srv_reachable :: "srv_system \<Rightarrow> bool" where
  init: "services = Inr ss \<Longrightarrow> srv_reachable (srv_start ss)"
| step: "srv_reachable s \<Longrightarrow> srv_step s t \<Longrightarrow> srv_reachable t"

section \<open>Lemmas on the construction\<close>

definition service :: "nat \<Rightarrow> string" where
  "service i = ''srv_relay_'' @ to_string (int i)"

lemma service_inject [simp]: "service i = service j \<longleftrightarrow> i = j"
  by (simp add: service_def)

lemma srv_sink_service_eq: "srv_sink_service = service 20"
  by (simp add: srv_sink_service_def service_def srv_kNumRelays_def)

lemma clients_at:
  assumes "0 \<le> i" and "i \<le> 20"
  shows "vector_at clients i = Inr (create_client i)"
  using assms by (simp add: vector_at_def clients_def srv_kNumRelays_def del: upto.simps)

definition relay_svc :: "int \<Rightarrow> ServiceNode" where
  "relay_svc i = \<lparr>service_node = ''srv_relay_'' @ to_string i, service_offered = ''srv_relay_'' @ to_string i,
     captured_i = i, captured_client = create_client (i + 1)\<rparr>"

lemma services_eq: "services = Inr (map relay_svc [0..19])"
proof -
  have "create_services clients is = Inr (map relay_svc is)" if "set is \<subseteq> {0..19}" for "is"
    using that by (induction "is") (simp_all add: clients_at relay_svc_def)
  then show ?thesis
    unfolding services_def srv_kNumRelays_def by auto
qed

lemma relay_svcs:
  assumes "relay_services s = map relay_svc [0..19]" and "r \<in> set (relay_services s)"
  obtains i where "i < 20" "r = relay_svc (int i)"
proof -
  from assms obtain j where "0 \<le> j" "j \<le> 19" "r = relay_svc j"
    by (auto simp del: upto.simps)
  then show thesis
    by (intro that [of "nat j"]) auto
qed

lemma relay_service_eq:
  "relay_service (relay_svc (int i)) m =
     (\<lparr>rs_ack = t_msgid (rq_timing m)\<rparr>, service (Suc i),
      \<lparr>rq_timing = \<lparr>t_msgid = t_msgid (rq_timing m), t_nanosec = t_nanosec (rq_timing m),
        t_source = ''srv relay '' @ to_string (int i)\<rparr>\<rparr>)"
  by (simp add: relay_service_def relay_svc_def create_client_def service_def Timing_new_def add.commute)

lemma service_offered_eq: "service_offered (relay_svc (int i)) = service i"
  by (simp add: relay_svc_def service_def)

lemma client_request_eq:
  "client_request i now = \<lparr>rq_timing = \<lparr>t_msgid = i64 i, t_nanosec = now, t_source = ''client''\<rparr>\<rparr>"
  by (simp add: client_request_def Timing_new_def)

lemma first_client: "vector_at clients 0 = Inr c \<Longrightarrow> client_service c = service 0"
  using clients_at [of 0] by (auto simp: create_client_def service_def)

section \<open>The system as a channel\<close>

text \<open>
  What the hops keep of a request: its id and its time stamp. Sent are the client's
  requests, in transit those in the 21 queues, arrived those the sink's callback was given.
\<close>

definition key :: "Bench_Request \<Rightarrow> int64 \<times> int64" where
  "key m = (t_msgid (rq_timing m), t_nanosec (rq_timing m))"

definition service_queues :: "srv_system \<Rightarrow> nat \<Rightarrow> Bench_Request list" where
  "service_queues s i = requests s (service i)"

definition srv_channel :: "srv_system \<Rightarrow> (int64 \<times> int64) channel" where
  "srv_channel s = \<lparr>sent = map key (client_sent s), pending = map key (pipeline (service_queues s)),
     arrived = map key (sink_got s)\<rparr>"

lemma service_queues_simps [simp]:
  "service_queues (async_send_request push (service i) m s) = (service_queues s)(i := push (service_queues s i) m)"
  "service_queues (take_request (service i) s) = (service_queues s)(i := tl (service_queues s i))"
  "service_queues (answer_with sv r s) = service_queues s"
  "service_queues (say line s) = service_queues s"
  "service_queues (srv_start ss) = (\<lambda>_. [])"
  by (simp_all add: service_queues_def async_send_request_def take_request_def answer_with_def
      say_def srv_start_def fun_eq_iff)

lemma service_queues_cong: "requests t = requests s \<Longrightarrow> service_queues t = service_queues s"
  by (simp add: service_queues_def fun_eq_iff)

lemma srv_field_simps [simp]:
  "client_sent (async_send_request push sv m s) = client_sent s"
  "sink_got (async_send_request push sv m s) = sink_got s"
  "srv_data (async_send_request push sv m s) = srv_data s"
  "srv_ended (async_send_request push sv m s) = srv_ended s"
  "srv_clock (async_send_request push sv m s) = srv_clock s"
  "phase (async_send_request push sv m s) = phase s"
  "relay_services (async_send_request push sv m s) = relay_services s"
  "client_sent (take_request sv s) = client_sent s" "sink_got (take_request sv s) = sink_got s"
  "srv_data (take_request sv s) = srv_data s" "srv_ended (take_request sv s) = srv_ended s"
  "srv_clock (take_request sv s) = srv_clock s" "phase (take_request sv s) = phase s"
  "relay_services (take_request sv s) = relay_services s"
  "client_sent (answer_with sv r s) = client_sent s" "sink_got (answer_with sv r s) = sink_got s"
  "srv_data (answer_with sv r s) = srv_data s" "srv_ended (answer_with sv r s) = srv_ended s"
  "srv_clock (answer_with sv r s) = srv_clock s" "phase (answer_with sv r s) = phase s"
  "relay_services (answer_with sv r s) = relay_services s"
  "client_sent (say line s) = client_sent s" "sink_got (say line s) = sink_got s"
  "sink_data (srv_data (say line s)) = sink_data (srv_data s)" "srv_ended (say line s) = srv_ended s"
  "srv_clock (say line s) = srv_clock s" "phase (say line s) = phase s"
  "relay_services (say line s) = relay_services s"
  by (simp_all add: async_send_request_def take_request_def answer_with_def say_def)

lemma requests_simps [simp]:
  "service_queues (s\<lparr>phase := p\<rparr>) = service_queues s"
  "service_queues (s\<lparr>phase := p, client_sent := ms\<rparr>) = service_queues s"
  "service_queues (s\<lparr>phase := p, srv_clock := c, client_sent := ms\<rparr>) = service_queues s"
  "service_queues (s\<lparr>srv_data := k, srv_clock := c, sink_got := ms\<rparr>) = service_queues s"
  "service_queues (s\<lparr>srv_data := k, srv_clock := c, sink_got := ms, srv_ended := e\<rparr>) = service_queues s"
  by (simp_all add: service_queues_def fun_eq_iff)

section \<open>Invariants\<close>

text \<open>The client: its ids count up from 0, and its clock readings are not in the future.\<close>

definition client_inv :: "srv_system \<Rightarrow> bool" where
  "client_inv s \<longleftrightarrow> relay_services s = map relay_svc [0..19] \<and> 0 \<le> ival (srv_clock s) \<and>
     (case phase s of
        Sending i \<Rightarrow> int (length (client_sent s)) = i \<and> i \<le> 1000
      | Finished \<Rightarrow> length (client_sent s) = 1000
      | _ \<Rightarrow> client_sent s = []) \<and>
     map (\<lambda>m. fst (key m)) (client_sent s) = map (\<lambda>k. i64 (int k)) [0..<length (client_sent s)] \<and>
     (\<forall>m \<in> set (client_sent s). 0 \<le> ival (snd (key m)) \<and> ival (snd (key m)) \<le> ival (srv_clock s))"

text \<open>Each hop's requests carry the name of the hop before it.\<close>

definition hop_name :: "nat \<Rightarrow> string" where
  "hop_name i = (if i = 0 then ''client'' else ''srv relay '' @ to_string (int (i - 1)))"

definition named :: "nat \<Rightarrow> Bench_Request list \<Rightarrow> bool" where
  "named i ms \<longleftrightarrow> (\<forall>m \<in> set ms. t_source (rq_timing m) = hop_name i)"

definition name_inv :: "srv_system \<Rightarrow> bool" where
  "name_inv s \<longleftrightarrow> (\<forall>i. named i (service_queues s i)) \<and> named 20 (sink_got s)"

definition srv_sink_inv :: "srv_system \<Rightarrow> bool" where
  "srv_sink_inv s \<longleftrightarrow> size (sink_data (srv_data s)) = length (sink_got s) \<and>
     (case srv_ended s of
        None \<Rightarrow> length (sink_got s) < 1000
      | Some e \<Rightarrow> e = Exit 0 \<and> length (sink_got s) = 1000 \<and>
          (\<exists>before. cout (srv_data s) = before @ stats_report (sink_data (srv_data s))))"

definition srv_inv :: "srv_system \<Rightarrow> bool" where
  "srv_inv s \<longleftrightarrow> client_inv s \<and> channel_ok (srv_channel s) \<and> name_inv s \<and> srv_sink_inv s"

lemma client_thread_inv: "client_thread s t \<Longrightarrow> client_inv s \<Longrightarrow> client_inv t"
proof (induction rule: client_thread.induct)
  case (begins s)
  then show ?case by (simp add: client_inv_def)
next
  case (waits s)
  then show ?case by simp
next
  case (ready s)
  then show ?case by (simp add: client_inv_def)
next
  case (sends s i now push client)
  then have "int (length (client_sent s)) = i"
    by (simp add: client_inv_def)
  with sends show ?case
    by (auto simp: client_inv_def client_request_eq key_def intro: order_trans)
next
  case (finishes s i)
  then show ?case by (simp add: client_inv_def)
qed

lemma client_inv_step: "srv_step s t \<Longrightarrow> client_inv s \<Longrightarrow> client_inv t"
proof (induction rule: srv_step.induct)
  case (client s t)
  then show ?case by (simp add: client_thread_inv)
next
  case (relay s push r m response target copy)
  then show ?case by (simp add: client_inv_def cong: client_phase.case_cong)
next
  case (sink s now iter m response k)
  then show ?case
    by (auto simp: client_inv_def cong: client_phase.case_cong intro: order_trans)
next
  case (sink_ends s now iter m e k)
  then show ?case
    by (auto simp: client_inv_def cong: client_phase.case_cong intro: order_trans)
qed

lemma named_simps [simp]:
  "named i []" "named i (m # ms) \<longleftrightarrow> t_source (rq_timing m) = hop_name i \<and> named i ms"
  "named i (ms @ ms') \<longleftrightarrow> named i ms \<and> named i ms'"
  by (auto simp: named_def)

lemma named_tl [simp]: "named i ms \<Longrightarrow> named i (tl ms)"
  by (cases ms) auto

lemma named_push:
  assumes "request_push push" and "named i ms" and "t_source (rq_timing m) = hop_name i"
  shows "named i (push ms m)"
proof -
  obtain b where "topic_queue push b"
    using assms(1) by (auto simp: request_push_def)
  from subseq_set [OF topic_queue.push_subseq [OF this, of ms m]] assms(2,3) show ?thesis
    by (auto simp: named_def)
qed

lemma client_thread_name: "client_thread s t \<Longrightarrow> name_inv s \<Longrightarrow> name_inv t"
proof (induction rule: client_thread.induct)
  case (sends s i now push client)
  then show ?case
    by (simp add: name_inv_def first_client client_request_eq named_push hop_name_def [of 0])
qed (simp_all add: name_inv_def)

lemma name_inv_step: "srv_step s t \<Longrightarrow> client_inv s \<Longrightarrow> name_inv s \<Longrightarrow> name_inv t"
proof (induction rule: srv_step.induct)
  case (client s t)
  then show ?case by (simp add: client_thread_name)
next
  case (relay s push r m response target copy)
  then obtain i where i: "i < 20" "r = relay_svc (int i)"
    using relay_svcs by (metis client_inv_def)
  with relay have "target = service (Suc i)" "t_source (rq_timing copy) = hop_name (Suc i)"
    by (auto simp: relay_service_eq hop_name_def)
  with relay i show ?case
    by (simp add: name_inv_def service_offered_eq named_push)
next
  case (sink s now iter m response k)
  then have "service_queues s 20 = m # tl (service_queues s 20)"
    by (simp add: service_queues_def srv_sink_service_eq)
  with sink(8) have "t_source (rq_timing m) = hop_name 20"
    by (metis name_inv_def named_simps(2))
  with sink show ?case
    by (simp add: name_inv_def srv_sink_service_eq)
next
  case (sink_ends s now iter m e k)
  then have "service_queues s 20 = m # tl (service_queues s 20)"
    by (simp add: service_queues_def srv_sink_service_eq)
  with sink_ends(8) have "t_source (rq_timing m) = hop_name 20"
    by (metis name_inv_def named_simps(2))
  with sink_ends show ?case
    by (simp add: name_inv_def srv_sink_service_eq)
qed

text \<open>Every step of the system is a number of steps of the channel.\<close>

lemma client_thread_channel: "client_thread s t \<Longrightarrow> channel_step\<^sup>*\<^sup>* (srv_channel s) (srv_channel t)"
proof (induction rule: client_thread.induct)
  case (sends s i now push client)
  obtain b where "topic_queue push b"
    using sends(4) by (auto simp: request_push_def)
  then have "subseq (map key (pipeline ((service_queues s)(0 := push (service_queues s 0) (client_request i now)))))
      (map key (pipeline (service_queues s)) @ [key (client_request i now)])"
    by (rule topic_queue.send)
  from channel_steps_send [OF this, of "srv_channel s"] show ?case
    by (simp add: srv_channel_def first_client [OF sends(5)])
qed (simp_all add: srv_channel_def)

lemma sink_takes:
  assumes "requests s srv_sink_service \<noteq> []" and "m = hd (requests s srv_sink_service)"
  shows "map key (pipeline (service_queues s)) =
    key m # map key (pipeline ((service_queues s)(20 := tl (service_queues s 20))))"
proof -
  have "service_queues s 20 = m # tl (service_queues s 20)"
    using assms by (simp add: service_queues_def srv_sink_service_eq)
  then have "pipeline (service_queues s) = m # pipeline ((service_queues s)(20 := tl (service_queues s 20)))"
    by (rule pipeline_arrive)
  then show ?thesis
    by simp
qed

lemma srv_step_channel:
  assumes "srv_step s t" and "client_inv s"
  shows "channel_step\<^sup>*\<^sup>* (srv_channel s) (srv_channel t)"
  using assms
proof (induction rule: srv_step.induct)
  case (client s t)
  then show ?case by (simp add: client_thread_channel)
next
  case (relay s push r m response target copy)
  obtain i where i: "i < 20" "r = relay_svc (int i)"
    using relay relay_svcs by (metis client_inv_def)
  obtain b where "topic_queue push b"
    using relay(2) by (auto simp: request_push_def)
  moreover have "service_queues s i = m # tl (service_queues s i)"
    using relay(4,5) i by (simp add: service_queues_def service_offered_eq)
  moreover have copy: "target = service (Suc i)" "key copy = key m"
    using relay(6) i by (auto simp: relay_service_eq key_def)
  ultimately have "subseq (map key (pipeline ((service_queues s)(i := tl (service_queues s i),
      Suc i := push (service_queues s (Suc i)) copy)))) (map key (pipeline (service_queues s)))"
    using i(1) by (intro topic_queue.hop)
  with channel_steps_lose [of _ "srv_channel s"] show ?case
    by (simp add: srv_channel_def i service_offered_eq copy)
next
  case (sink s now iter m response k)
  from channel_arrive [OF sink_takes [OF sink(4,5)], of "srv_channel s"] show ?case
    by (simp add: srv_channel_def srv_sink_service_eq)
next
  case (sink_ends s now iter m e k)
  from channel_arrive [OF sink_takes [OF sink_ends(4,5)], of "srv_channel s"] show ?case
    by (simp add: srv_channel_def srv_sink_service_eq)
qed

lemma sink_gets_sent:
  assumes "client_inv s" and "channel_ok (srv_channel s)"
    and "requests s srv_sink_service \<noteq> []" and "m = hd (requests s srv_sink_service)"
  shows "0 \<le> ival (t_nanosec (rq_timing m)) \<and> ival (t_nanosec (rq_timing m)) \<le> ival (srv_clock s)"
proof -
  have "key m \<in> set (map key (client_sent s))"
    using assms(2) subseq_set [of "arrived (srv_channel s) @ pending (srv_channel s)" "sent (srv_channel s)"]
    unfolding channel_ok_def srv_channel_def channel.simps sink_takes [OF assms(3,4)] by auto
  with assms(1) show ?thesis
    by (auto simp: client_inv_def key_def)
qed

lemma client_thread_sink: "client_thread s t \<Longrightarrow> srv_ended s = None \<Longrightarrow> srv_sink_inv s \<Longrightarrow> srv_sink_inv t"
  by (induction rule: client_thread.induct) (simp_all add: srv_sink_inv_def)

lemma srv_sink_inv_step:
  assumes "srv_step s t" and "client_inv s" and "channel_ok (srv_channel s)" and "srv_sink_inv s"
  shows "srv_sink_inv t"
  using assms
proof (induction rule: srv_step.induct)
  case (client s t)
  then show ?case by (simp add: client_thread_sink)
next
  case (relay s push r m response target copy)
  then show ?case by (simp add: srv_sink_inv_def cong: option.case_cong)
next
  case (sink s now iter m response k)
  then have "sink_service iter now m (srv_data s) = sink_outcome srv_line \<lparr>rs_ack = t_msgid (rq_timing m)\<rparr>
      (per_hop (i64 21) now (t_nanosec (rq_timing m))) (srv_data s)"
    by (simp add: sink_service_cases srv_sink_inv_def)
  with sink show ?case
    by (auto simp: srv_sink_inv_def sink_outcome_def Let_def split: sum.splits if_splits)
next
  case (sink_ends s now iter m e k)
  then have out: "sink_service iter now m (srv_data s) = sink_outcome srv_line \<lparr>rs_ack = t_msgid (rq_timing m)\<rparr>
      (per_hop (i64 21) now (t_nanosec (rq_timing m))) (srv_data s)"
    by (simp add: sink_service_cases srv_sink_inv_def)
  have "0 \<le> ival (t_nanosec (rq_timing m))" "ival (t_nanosec (rq_timing m)) \<le> ival now"
    using sink_gets_sent [OF sink_ends(7,8,4,5)] sink_ends(2) by auto
  then obtain x where "per_hop (i64 21) now (t_nanosec (rq_timing m)) = Inr x"
    using per_hop_monotone_clock [of "i64 21"] srv_hops by fastforce
  with sink_ends out show ?case
    by (auto simp: srv_sink_inv_def sink_outcome_def Let_def split: if_splits)
qed

lemma srv_start_simps [simp]:
  "phase (srv_start ss) = Starting" "relay_services (srv_start ss) = ss"
  "srv_data (srv_start ss) = empty_sink" "srv_ended (srv_start ss) = None"
  "srv_clock (srv_start ss) = i64 0" "client_sent (srv_start ss) = []" "sink_got (srv_start ss) = []"
  by (simp_all add: srv_start_def)

lemma srv_reachable_inv: "srv_reachable s \<Longrightarrow> srv_inv s"
proof (induction rule: srv_reachable.induct)
  case (init ss)
  then show ?case
    by (simp add: services_eq srv_inv_def client_inv_def channel_ok_def srv_channel_def name_inv_def
        srv_sink_inv_def empty_sink_def ival_i64 in_i64_def del: upto.simps)
next
  case (step s t)
  then show ?case
    unfolding srv_inv_def
    by (meson client_inv_step srv_step_channel channel_steps_ok name_inv_step srv_sink_inv_step)
qed

text \<open>Every sample is within the clock.\<close>

lemma sink_service_within:
  assumes "srv_inv s" and "requests s srv_sink_service \<noteq> []" and "m = hd (requests s srv_sink_service)"
    and "srv_ended s = None" and "enumerates iter" and "ival (srv_clock s) \<le> ival now"
    and "sink_service iter now m (srv_data s) = Some (r, k)" and "samples_within (srv_clock s) (srv_data s)"
  shows "samples_within now k"
proof (rule sink_outcome_within)
  show "sink_outcome srv_line \<lparr>rs_ack = t_msgid (rq_timing m)\<rparr>
      (per_hop (i64 21) now (t_nanosec (rq_timing m))) (srv_data s) = Some (r, k)"
    using assms by (simp add: sink_service_cases srv_inv_def srv_sink_inv_def)
  show "samples_within now (srv_data s)"
    using assms(8,6) by (rule samples_within_mono)
  show "0 \<le> ival (t_nanosec (rq_timing m))" "ival (t_nanosec (rq_timing m)) \<le> ival now"
    using sink_gets_sent [of s m] assms by (auto simp: srv_inv_def)
qed

lemma client_thread_within:
  "client_thread s t \<Longrightarrow> samples_within (srv_clock s) (srv_data s) \<Longrightarrow> samples_within (srv_clock t) (srv_data t)"
  by (induction rule: client_thread.induct) (auto simp: say_def intro: samples_within_mono)

lemma srv_within_step:
  "srv_step s t \<Longrightarrow> srv_inv s \<Longrightarrow> samples_within (srv_clock s) (srv_data s) \<Longrightarrow> samples_within (srv_clock t) (srv_data t)"
proof (induction rule: srv_step.induct)
  case (client s t)
  then show ?case by (simp add: client_thread_within)
qed (simp_all add: sink_service_within)

lemma srv_within: "srv_reachable s \<Longrightarrow> samples_within (srv_clock s) (srv_data s)"
proof (induction rule: srv_reachable.induct)
  case (init ss)
  then show ?case by (simp add: samples_within_def empty_sink_def)
next
  case (step s t)
  then show ?case using srv_within_step srv_reachable_inv by blast
qed

lemma srv_reachable_steps: "srv_step\<^sup>*\<^sup>* s t \<Longrightarrow> srv_reachable s \<Longrightarrow> srv_reachable t"
  by (induction rule: rtranclp_induct) (auto intro: srv_reachable.step)

lemma srv_steps_channel:
  "srv_step\<^sup>*\<^sup>* s t \<Longrightarrow> srv_reachable s \<Longrightarrow> channel_step\<^sup>*\<^sup>* (srv_channel s) (srv_channel t)"
proof (induction rule: rtranclp_induct)
  case base
  then show ?case by simp
next
  case (step t u)
  then have "client_inv t"
    using srv_reachable_steps srv_reachable_inv srv_inv_def by blast
  with step show ?case
    using srv_step_channel by (meson rtranclp_trans)
qed

section \<open>Runs\<close>

text \<open>Between two requests: nothing in transit, \<open>n\<close> requests sent and received.\<close>

definition srv_idle :: "nat \<Rightarrow> srv_system \<Rightarrow> bool" where
  "srv_idle n s \<longleftrightarrow> srv_reachable s \<and> srv_ended s = None \<and> service_queues s = (\<lambda>_. []) \<and>
     phase s = Sending (int n) \<and> length (sink_got s) = n \<and> srv_clock s = i64 0"

text \<open>A middleware that keeps ten requests, and one that loses every request.\<close>

interpretation srv_queue: topic_queue "keep_last 10" 10
  by (rule topic_queue_keep_last)

lemma keep_last_push: "request_push (keep_last 10)"
  unfolding request_push_def using srv_queue.topic_queue_axioms by blast

lemma lost_push: "request_push (\<lambda>q _. q)"
  unfolding request_push_def using topic_queue_lost by blast

lemma keep_last_empty: "keep_last 10 [] m = [m]"
  by (simp add: keep_last_def)

lemma srv_start_reachable: "srv_reachable (srv_start (map relay_svc [0..19]))"
  by (rule srv_reachable.init [OF services_eq])

lemma srv_idle_0: "\<exists>s. srv_idle 0 s"
proof -
  let ?s0 = "srv_start (map relay_svc [0..19])"
  let ?s1 = "say ''Wating for relay ...'' (?s0\<lparr>phase := Waiting\<rparr>)"
  let ?s2 = "say ('' ready.'' @ endl) (?s1\<lparr>phase := Sending 0\<rparr>)"
  have "srv_step ?s0 ?s1"
    by (intro srv_step.client client_thread.begins) simp_all
  moreover have "srv_step ?s1 ?s2"
    by (intro srv_step.client client_thread.ready) simp_all
  ultimately have "srv_reachable ?s2"
    using srv_start_reachable srv_reachable.step by blast
  then have "srv_idle 0 ?s2"
    by (simp add: srv_idle_def)
  then show ?thesis
    by blast
qed

lemma client_sends:
  assumes "srv_idle n s" and "n < 1000" and "request_push push"
  defines "m \<equiv> client_request (int n) (i64 0)"
  obtains s' where "srv_reachable s'" "srv_ended s' = None" "srv_step s s'"
    "service_queues s' = (\<lambda>_. [])(0 := push [] m)" "phase s' = Sending (int (Suc n))"
    "length (sink_got s') = n" "srv_clock s' = i64 0" "client_sent s' = client_sent s @ [m]"
proof -
  let ?s' = "async_send_request push (client_service (create_client 0)) m
    (s\<lparr>phase := Sending (int n + 1), srv_clock := i64 0, client_sent := client_sent s @ [m]\<rparr>)"
  have step: "srv_step s ?s'"
    using assms(1-3) clients_at [of 0] unfolding m_def
    by (intro srv_step.client client_thread.sends) (simp_all add: srv_idle_def ival_i64 in_i64_def)
  have "client_service (create_client 0) = service 0"
    using first_client [OF clients_at] by simp
  with step assms(1) show thesis
    by (intro that [of ?s'])
      (auto simp: srv_idle_def add.commute m_def intro: srv_reachable.step)
qed

text \<open>
  Progress: as long as no request is lost, a state that has not ended has a step that loses
  none either and brings the end nearer. What is left to do: 22 for each request that is
  still to be sent, and for each request in transit the number of hops it still has to make.
\<close>

definition lossless :: "srv_system \<Rightarrow> bool" where
  "lossless s \<longleftrightarrow> length (client_sent s) \<le> length (sink_got s) + length (pipeline (service_queues s))"

fun client_left :: "client_phase \<Rightarrow> nat" where
  "client_left Starting = 1002"
| "client_left Waiting = 1001"
| "client_left (Sending i) = nat (1000 - i)"
| "client_left Finished = 0"

definition work_left :: "srv_system \<Rightarrow> nat" where
  "work_left s = 22 * client_left (phase s) + weight (\<lambda>i. 21 - i) (service_queues s)"

definition append_push :: "nat \<Rightarrow> Bench_Request list \<Rightarrow> Bench_Request \<Rightarrow> Bench_Request list" where
  "append_push room = keep_last (Suc room)"

lemma append_push: "request_push (append_push room)" "length q \<le> room \<Longrightarrow> append_push room q m = q @ [m]"
  using topic_queue_keep_last by (auto simp: append_push_def request_push_def keep_last_room)

lemma relay_advances:
  assumes "client_inv s" and "srv_ended s = None" and "lossless s" and "i < 20" and "service_queues s i \<noteq> []"
  shows "\<exists>t. srv_step s t \<and> srv_ended t = None \<and> lossless t \<and> work_left t < work_left s"
proof -
  let ?q = "service_queues s" and ?m = "hd (service_queues s i)" and ?push = "append_push (length (service_queues s (Suc i)))"
  let ?copy = "\<lparr>rq_timing = \<lparr>t_msgid = t_msgid (rq_timing ?m), t_nanosec = t_nanosec (rq_timing ?m),
      t_source = ''srv relay '' @ to_string (int i)\<rparr>\<rparr>"
  let ?t = "answer_with (service_offered (relay_svc (int i))) \<lparr>rs_ack = t_msgid (rq_timing ?m)\<rparr>
    (async_send_request ?push (service (Suc i)) ?copy (take_request (service_offered (relay_svc (int i))) s))"
  have "relay_svc (int i) \<in> set (relay_services s)"
    using assms(1,4) by (auto simp: client_inv_def simp del: upto.simps)
  then have step: "srv_step s ?t"
    using assms(2,5) append_push(1)
    by (intro srv_step.relay [OF _ _ _ _ _ relay_service_eq]) (simp_all add: service_offered_eq service_queues_def)
  have queues: "service_queues ?t = ?q(i := tl (?q i), Suc i := ?q (Suc i) @ [?copy])"
    by (simp add: service_offered_eq append_push(2))
  have w: "weight w (service_queues ?t) + w i = weight w ?q + w (Suc i)" for w
    using weight_upd [of i w ?q "tl (?q i)"] weight_upd [of "Suc i" w "?q(i := tl (?q i))" "?q (Suc i) @ [?copy]"] assms(4,5)
    unfolding queues by (cases "?q i") (simp_all add: algebra_simps)
  have "length (pipeline (service_queues ?t)) = length (pipeline ?q)"
    using w [of "\<lambda>_. 1"] by (simp add: length_pipeline)
  moreover have "work_left ?t < work_left s"
    using w [of "\<lambda>i. 21 - i"] assms(4) by (simp add: work_left_def)
  ultimately show ?thesis
    using step assms(2,3) by (intro exI [of _ ?t]) (simp add: lossless_def)
qed

lemma sink_advances:
  assumes "srv_inv s" and "srv_ended s = None" and "lossless s" and "service_queues s 20 \<noteq> []"
  shows "\<exists>t. srv_step s t \<and> (srv_ended t = Some (Exit 0) \<or> srv_ended t = None \<and> lossless t \<and> work_left t < work_left s)"
proof -
  let ?q = "service_queues s" and ?m = "hd (service_queues s 20)"
  have q: "requests s srv_sink_service \<noteq> []" "?m = hd (requests s srv_sink_service)"
    using assms(4) by (simp_all add: service_queues_def srv_sink_service_eq)
  have inv: "client_inv s" "channel_ok (srv_channel s)" "size (sink_data (srv_data s)) < 1000"
    using assms(1,2) by (simp_all add: srv_inv_def srv_sink_inv_def)
  obtain x where x: "per_hop (i64 21) (srv_clock s) (t_nanosec (rq_timing ?m)) = Inr x"
    using per_hop_monotone_clock [of "i64 21" "t_nanosec (rq_timing ?m)" "srv_clock s"] srv_hops(2)
      sink_gets_sent [OF inv(1,2) q] by auto
  have out: "sink_service sorted_list_of_multiset (srv_clock s) ?m (srv_data s) =
      sink_outcome srv_line \<lparr>rs_ack = t_msgid (rq_timing ?m)\<rparr> (Inr x) (srv_data s)"
    using inv(3) x by (simp add: sink_service_cases enumerates_sorted_list)
  let ?u = "\<lambda>k. (take_request srv_sink_service s)\<lparr>srv_data := k, srv_clock := srv_clock s, sink_got := sink_got s @ [?m]\<rparr>"
  show ?thesis
  proof (cases "size (sink_data (srv_data s)) < 999")
    case True
    then obtain k where k: "sink_service sorted_list_of_multiset (srv_clock s) ?m (srv_data s) = Some (Inr \<lparr>rs_ack = t_msgid (rq_timing ?m)\<rparr>, k)"
      using out by (simp add: sink_outcome_def Let_def)
    let ?t = "answer_with srv_sink_service \<lparr>rs_ack = t_msgid (rq_timing ?m)\<rparr> (?u k)"
    have step: "srv_step s ?t"
      using assms(2) q k by (intro srv_step.sink [OF _ _ enumerates_sorted_list]) simp_all
    have queues: "service_queues ?t = ?q(20 := tl (?q 20))"
      by (simp add: srv_sink_service_eq)
    have w: "weight w (service_queues ?t) + w 20 = weight w ?q" for w
      using weight_upd [of 20 w ?q "tl (?q 20)"] assms(4) unfolding queues by (cases "?q 20") simp_all
    have "length (pipeline (service_queues ?t)) + 1 = length (pipeline ?q)"
      using w [of "\<lambda>_. 1"] by (simp add: length_pipeline)
    moreover have "work_left ?t < work_left s"
      using w [of "\<lambda>i. 21 - i"] by (simp add: work_left_def)
    ultimately show ?thesis
      using step assms(2,3) by (intro exI [of _ ?t]) (simp add: lossless_def)
  next
    case False
    then obtain k where k: "sink_service sorted_list_of_multiset (srv_clock s) ?m (srv_data s) = Some (Inl (Exit 0), k)"
      using out inv(3) by (simp add: sink_outcome_def Let_def)
    let ?t = "(?u k)\<lparr>srv_ended := Some (Exit 0)\<rparr>"
    have "srv_step s ?t"
      using assms(2) q k by (intro srv_step.sink_ends [OF _ _ enumerates_sorted_list]) simp_all
    then show ?thesis
      by (intro exI [of _ ?t]) simp
  qed
qed

lemma client_advances:
  assumes "srv_inv s" and "srv_ended s = None" and "lossless s" and "\<forall>i \<le> 20. service_queues s i = []"
  shows "\<exists>t. srv_step s t \<and> srv_ended t = None \<and> lossless t \<and> work_left t < work_left s"
proof -
  have empty: "pipeline (service_queues s) = []"
    using assms(4) by (auto simp: pipeline_def)
  have got: "length (sink_got s) < 1000" and inv: "client_inv s"
    using assms(1,2) by (simp_all add: srv_inv_def srv_sink_inv_def)
  then have sent: "length (client_sent s) < 1000"
    using assms(3) by (simp add: lossless_def empty)
  show ?thesis
  proof (cases "phase s")
    case Starting
    let ?t = "say ''Wating for relay ...'' (s\<lparr>phase := Waiting\<rparr>)"
    have "srv_step s ?t"
      using assms(2) Starting by (intro srv_step.client client_thread.begins)
    with Starting show ?thesis
      using assms(2,3) by (intro exI [of _ ?t]) (simp add: lossless_def work_left_def)
  next
    case Waiting
    let ?t = "say ('' ready.'' @ endl) (s\<lparr>phase := Sending 0\<rparr>)"
    have "srv_step s ?t"
      using assms(2) Waiting by (intro srv_step.client client_thread.ready)
    with Waiting show ?thesis
      using assms(2,3) by (intro exI [of _ ?t]) (simp add: lossless_def work_left_def)
  next
    case (Sending i)
    then have i: "i < 1000" "0 \<le> i"
      using inv sent by (auto simp: client_inv_def)
    let ?m = "client_request i (srv_clock s)"
    let ?t = "async_send_request (append_push 0) (client_service (create_client 0)) ?m
      (s\<lparr>phase := Sending (i + 1), srv_clock := srv_clock s, client_sent := client_sent s @ [?m]\<rparr>)"
    have step: "srv_step s ?t"
      using assms(2) Sending i append_push(1) clients_at [of 0]
      by (intro srv_step.client client_thread.sends) simp_all
    have "client_service (create_client 0) = service 0"
      using first_client [OF clients_at] by simp
    then have queues: "service_queues ?t = (service_queues s)(0 := [?m])"
      using assms(4) by (simp add: append_push(2))
    have w: "weight w (service_queues ?t) = weight w (service_queues s) + w 0" for w
      using weight_upd [of 0 w "service_queues s" "[?m]"] assms(4) unfolding queues by simp
    have "length (pipeline (service_queues ?t)) = length (pipeline (service_queues s)) + 1"
      using w [of "\<lambda>_. 1"] by (simp add: length_pipeline)
    moreover have "work_left ?t < work_left s"
      using w [of "\<lambda>i. 21 - i"] Sending i by (simp add: work_left_def nat_diff_distrib)
    ultimately show ?thesis
      using step assms(2,3) by (intro exI [of _ ?t]) (simp add: lossless_def)
  next
    case Finished
    then show ?thesis
      using inv sent by (simp add: client_inv_def)
  qed
qed

lemma srv_advances:
  assumes "srv_reachable s" and "srv_ended s = None" and "lossless s"
  shows "\<exists>t. srv_step s t \<and> (srv_ended t = Some (Exit 0) \<or> srv_ended t = None \<and> lossless t \<and> work_left t < work_left s)"
proof -
  have inv: "srv_inv s" "client_inv s"
    using srv_reachable_inv [OF assms(1)] by (simp_all add: srv_inv_def)
  consider i where "i < 20" "service_queues s i \<noteq> []" | "service_queues s 20 \<noteq> []" | "\<forall>i \<le> 20. service_queues s i = []"
    by (metis le_neq_implies_less)
  then show ?thesis
  proof cases
    case 1
    then show ?thesis using relay_advances [OF inv(2) assms(2,3)] by blast
  next
    case 2
    then show ?thesis using sink_advances [OF inv(1) assms(2,3)] by blast
  next
    case 3
    then show ?thesis using client_advances [OF inv(1) assms(2,3)] by blast
  qed
qed

lemma lossless_ends:
  "srv_reachable s \<Longrightarrow> srv_ended s = None \<Longrightarrow> lossless s \<Longrightarrow> \<exists>t. srv_step\<^sup>*\<^sup>* s t \<and> srv_ended t = Some (Exit 0)"
proof (induction "work_left s" arbitrary: s rule: less_induct)
  case less
  obtain t where t: "srv_step s t"
      "srv_ended t = Some (Exit 0) \<or> srv_ended t = None \<and> lossless t \<and> work_left t < work_left s"
    using srv_advances [OF less.prems] by blast
  then show ?case
    using less.hyps [of t] srv_reachable.step [OF less.prems(1) t(1)]
    by (meson converse_rtranclp_into_rtranclp r_into_rtranclp)
qed

lemma srv_start_lossless: "lossless (srv_start ss)"
  by (simp add: lossless_def)

lemma srv_end_reachable: "\<exists>s. srv_reachable s \<and> srv_ended s = Some (Exit 0)"
  using lossless_ends [OF srv_start_reachable srv_start_simps(4) srv_start_lossless]
    srv_reachable_steps [OF _ srv_start_reachable] by blast

text \<open>A run that loses its first request.\<close>

lemma lost_reachable:
  "\<exists>s. srv_reachable s \<and> srv_ended s = None \<and> sink_got s = [] \<and> pipeline (service_queues s) = [] \<and> length (client_sent s) = 1"
proof -
  obtain s where s: "srv_idle 0 s"
    using srv_idle_0 by blast
  then have "client_sent s = []"
    using srv_reachable_inv [of s] by (auto simp: srv_idle_def srv_inv_def client_inv_def)
  then show ?thesis
    using s by (elim client_sends [OF _ _ lost_push]) (auto simp: fun_upd_idem)
qed

section \<open>Properties\<close>

text \<open>
  C5: the chain of services implements one FIFO channel from the client to the sink that may
  lose requests: in every reachable state, each step of the system is a number of steps of
  the channel on the ids and time stamps of the requests. So the relays' own copies keep
  both, and no hop reorders or repeats a request.
\<close>

theorem srv_refines_channel:
  assumes "srv_reachable s" and "srv_step s t"
  shows "channel_step\<^sup>*\<^sup>* (srv_channel s) (srv_channel t)"
  using assms srv_reachable_inv [of s] by (simp add: srv_inv_def srv_step_channel)

theorem srv_refines_channel_witness:
  "\<exists>s t m. srv_step s t \<and> channel_step\<^sup>*\<^sup>* (srv_channel s) (srv_channel t) \<and>
     sent (srv_channel s) = [] \<and> sent (srv_channel t) = [key m] \<and> pending (srv_channel t) = [key m]"
proof -
  let ?m = "client_request 0 (i64 0)"
  obtain s where s: "srv_idle 0 s"
    using srv_idle_0 by blast
  then have none: "client_sent s = []" and reach: "srv_reachable s"
    using srv_reachable_inv [of s] by (auto simp: srv_idle_def srv_inv_def client_inv_def)
  obtain t where t: "srv_step s t" "service_queues t = (\<lambda>_. [])(0 := [?m])" "client_sent t = [?m]"
    using client_sends [OF s _ keep_last_push] none by (force simp: keep_last_empty)
  have "map key (pipeline (service_queues t)) = [key ?m]"
    using t(2) by (simp add: pipeline_def upt_conv_Cons)
  then show ?thesis
    using srv_refines_channel [OF reach t(1)] t none
    by (intro exI [of _ s] exI [of _ t] exI [of _ ?m]) (simp add: srv_channel_def)
qed

text \<open>
  C14: what the sink is given are the client's requests in the order it sent them, with
  strictly increasing ids from 0 to 999 and the client's time stamps, all under the name of
  the last relay.
\<close>

theorem srv_sink_gets:
  assumes "srv_reachable s"
  shows "subseq (map key (sink_got s)) (map key (client_sent s)) \<and>
    map (\<lambda>m. fst (key m)) (client_sent s) = map (\<lambda>k. i64 (int k)) [0..<length (client_sent s)] \<and>
    length (client_sent s) \<le> 1000 \<and>
    sorted_wrt (<) (map (\<lambda>m. ival (fst (key m))) (sink_got s)) \<and>
    (\<forall>m \<in> set (sink_got s). t_source (rq_timing m) = ''srv relay 19'')"
proof -
  have inv: "client_inv s" "channel_ok (srv_channel s)" "named 20 (sink_got s)"
    using srv_reachable_inv [OF assms] by (simp_all add: srv_inv_def name_inv_def)
  have sub: "subseq (map key (sink_got s)) (map key (client_sent s))"
    using inv(2) by (auto simp: channel_ok_def srv_channel_def intro: subseq_order.trans [rotated])
  have ids: "map (\<lambda>m. fst (key m)) (client_sent s) = map (\<lambda>k. i64 (int k)) [0..<length (client_sent s)]"
    and len: "length (client_sent s) \<le> 1000"
    using inv(1) by (auto simp: client_inv_def split: client_phase.splits)
  have "map (\<lambda>m. ival (fst (key m))) (client_sent s) = map ival (map (\<lambda>m. fst (key m)) (client_sent s))"
    by simp
  also have "\<dots> = map int [0..<length (client_sent s)]"
    unfolding ids using len by (simp add: ival_i64 in_i64_def)
  finally have "sorted_wrt (<) (map (\<lambda>m. ival (fst (key m))) (client_sent s))"
    by (simp add: sorted_wrt_map)
  moreover have "subseq (map (\<lambda>m. ival (fst (key m))) (sink_got s)) (map (\<lambda>m. ival (fst (key m))) (client_sent s))"
    using subseq_map [OF sub, of "\<lambda>k. ival (fst k)"] by (simp add: o_def)
  ultimately have "sorted_wrt (<) (map (\<lambda>m. ival (fst (key m))) (sink_got s))"
    using sorted_wrt_subseq by blast
  moreover have "\<forall>m \<in> set (sink_got s). t_source (rq_timing m) = ''srv relay 19''"
    using inv(3) by (simp add: named_def hop_name_def show_digits)
  ultimately show ?thesis
    using sub ids len by blast
qed

theorem srv_sink_gets_witness:
  "\<exists>s. srv_reachable s \<and> srv_ended s = Some (Exit 0) \<and>
     sorted_wrt (<) (map (\<lambda>m. ival (fst (key m))) (sink_got s))"
proof -
  obtain s where s: "srv_reachable s" "srv_ended s = Some (Exit 0)"
    using srv_end_reachable by blast
  with srv_sink_gets [OF s(1)] show ?thesis
    by blast
qed

text \<open>
  C7: the process ends only with code 0 in the sink's callback, after the report, and only
  when the sink has got every one of the client's thousand requests.
\<close>

theorem srv_ends:
  assumes "srv_reachable s" and "srv_ended s = Some e"
  shows "e = Exit 0 \<and> length (client_sent s) = 1000 \<and> map key (sink_got s) = map key (client_sent s) \<and>
    pipeline (service_queues s) = [] \<and>
    (\<exists>before. cout (srv_data s) = before @ stats_report (sink_data (srv_data s)))"
proof -
  have inv: "client_inv s" "channel_ok (srv_channel s)" "srv_sink_inv s"
    using srv_reachable_inv [OF assms(1)] by (simp_all add: srv_inv_def)
  then have sink: "e = Exit 0" "length (sink_got s) = 1000"
      "\<exists>before. cout (srv_data s) = before @ stats_report (sink_data (srv_data s))"
    using assms(2) by (auto simp: srv_sink_inv_def)
  have sub: "subseq (map key (sink_got s @ pipeline (service_queues s))) (map key (client_sent s))"
    using inv(2) by (simp add: channel_ok_def srv_channel_def)
  have "length (client_sent s) \<le> 1000"
    using inv(1) by (auto simp: client_inv_def split: client_phase.splits)
  moreover have "1000 + length (pipeline (service_queues s)) \<le> length (client_sent s)"
    using list_emb_length [OF sub] sink(2) by simp
  ultimately have "length (client_sent s) = 1000" and "length (pipeline (service_queues s)) = 0"
    by linarith+
  with sub sink show ?thesis
    by (auto intro: subseq_same_length)
qed

theorem srv_ends_witness:
  "\<exists>s. srv_reachable s \<and> srv_ended s = Some (Exit 0) \<and> length (client_sent s) = 1000"
proof -
  obtain s where s: "srv_reachable s" "srv_ended s = Some (Exit 0)"
    using srv_end_reachable by blast
  with srv_ends [OF this] show ?thesis
    by blast
qed

text \<open>
  C15: once a request is lost, that is once fewer requests are in transit or received than
  were sent, the benchmark never ends, whatever the services do from then on: the client
  sends no request twice and the sink waits for a thousand.
\<close>

theorem srv_lost_never_ends:
  assumes "srv_reachable s" and "length (sink_got s) + length (pipeline (service_queues s)) < length (client_sent s)"
    and "srv_step\<^sup>*\<^sup>* s t"
  shows "srv_ended t = None"
proof (rule ccontr)
  assume "srv_ended t \<noteq> None"
  then obtain e where e: "srv_ended t = Some e"
    by blast
  have inv: "client_inv t" "srv_sink_inv t"
    using srv_reachable_inv [OF srv_reachable_steps [OF assms(3,1)]] by (simp_all add: srv_inv_def)
  then have "length (client_sent t) \<le> 1000" "length (sink_got t) = 1000"
    using e by (auto simp: client_inv_def srv_sink_inv_def split: client_phase.splits)
  with channel_steps_lost [OF srv_steps_channel [OF assms(3,1)]] assms(2) show False
    by (simp add: srv_channel_def)
qed

theorem srv_lost_never_ends_witness:
  "\<exists>s. srv_reachable s \<and> (\<nexists>t. srv_step\<^sup>*\<^sup>* s t \<and> srv_ended t \<noteq> None)"
proof -
  obtain s where s: "srv_reachable s" "length (sink_got s) + length (pipeline (service_queues s)) < length (client_sent s)"
    using lost_reachable by fastforce
  then have "\<nexists>t. srv_step\<^sup>*\<^sup>* s t \<and> srv_ended t \<noteq> None"
    using srv_lost_never_ends [OF s] by simp
  with s(1) show ?thesis
    by blast
qed

text \<open>
  C31: the converse: as long as no request is lost, that is as long as all that were sent are
  in transit or received, the benchmark can still end: from every such state that has not
  ended, wherever the requests are and whatever the client is about to do, a run leads to the
  end with code 0.
\<close>

theorem srv_can_end:
  assumes "srv_reachable s" and "srv_ended s = None"
    and "length (client_sent s) \<le> length (sink_got s) + length (pipeline (service_queues s))"
  shows "\<exists>t. srv_step\<^sup>*\<^sup>* s t \<and> srv_ended t = Some (Exit 0)"
  using assms by (intro lossless_ends) (simp_all add: lossless_def)

theorem srv_can_end_witness:
  "\<exists>t. srv_step\<^sup>*\<^sup>* (srv_start (map relay_svc [0..19])) t \<and> srv_ended t = Some (Exit 0)"
  by (rule srv_can_end [OF srv_start_reachable]) (simp_all del: upto.simps)

text \<open>
  The service sink's callback on every branch: overflow is undefined behaviour;
  otherwise the sample is stored and its line written, and the response has the request's
  id below a thousand samples, with the report and \<open>exit(0)\<close> from the thousandth on.
\<close>

theorem sink_service_spec:
  assumes "enumerates iter" and "size (sink_data s) < 2 ^ 26"
  shows "sink_service iter now m s =
    (let sent = t_nanosec (rq_timing m) in
     if \<not> in_i64 (ival now - ival sent) then Some (Inl (Undef Signed_overflow), s)
     else let x = i64 ((ival now - ival sent) sdiv 21);
              M = add_mset x (sink_data s);
              t = cout s @ ''nano seconds per hop: '' @ to_string (ival x) @ endl
          in if size M < 1000
             then Some (Inr \<lparr>rs_ack = t_msgid (rq_timing m)\<rparr>, \<lparr>sink_data = M, cout = t\<rparr>)
             else Some (Inl (Exit 0), \<lparr>sink_data = M, cout = t @ stats_report M\<rparr>))"
  using assms
  by (simp add: sink_service_cases srv_hops sink_outcome_def per_hop_eq srv_line_def Let_def)

theorem sink_service_spec_witness:
  "sink_service sorted_list_of_multiset (i64 (2 ^ 62)) (client_request 3 (i64 (- (2 ^ 63)))) empty_sink =
     Some (Inl (Undef Signed_overflow), empty_sink)"
proof -
  have "ival (i64 (2 ^ 62)) = 2 ^ 62" "ival (i64 (- (2 ^ 63))) = - (2 ^ 63)"
    by (simp_all add: ival_i64 in_i64_def)
  then show ?thesis
    using sink_service_spec [OF enumerates_sorted_list,
        of empty_sink "i64 (2 ^ 62)" "client_request 3 (i64 (- (2 ^ 63)))"]
    by (simp add: empty_sink_def client_request_eq in_i64_def)
qed

end
