(* ===== verification/Spec2Isabelle.thy ===== *)
theory Spec2Isabelle
  imports Thrift_Robust Thrift_Skeleton Rust_Interop Grpc_Bench Ros_Pubsub Ros_Service
begin

text \<open>
  ROS2-pubsub-benchmark: a model of the benchmarks of message-passing latency, and the
  theorems that make them correct.

  \<^bold>\<open>The program.\<close> Every benchmark sends small messages with an id, a time stamp and a source
  name along the chain \<open>source, relay 0, ..., relay 19, sink\<close> and lets the sink divide the
  travel time by the 21 hops. After 1000 samples the sink prints the 50th and 90th
  percentile and ends the process. Four programs do this over four frameworks:
  \<open>thrift-bench/bench.cpp\<close> (synchronous calls over sockets, with the code the Thrift compiler
  generated in \<open>thrift-bench/gen-cpp\<close>), \<open>grpc-bench/gbench/bench.cpp\<close> (synchronous calls),
  \<open>pnode/src/pub.cpp\<close> (ROS 2 topics) and \<open>psrv/src/srv.cpp\<close> (ROS 2 services, asynchronous).
  \<open>thrift-rs\<close> is the thrift benchmark in Rust.

  \<^bold>\<open>The theories.\<close>
  \<^item> \<open>Prelude\<close>: how C++ code ends early (\<open>stop\<close>: exceptions, \<open>exit\<close>, undefined behaviour), the
    type \<open>prog\<close> of stateful code with its sequencing, scopes, \<open>catch\<close> and \<open>while (true)\<close>.
  \<^item> \<open>Cpp_Int\<close>: \<open>int64_t\<close> at its width with overflow as undefined behaviour, \<open>size_t\<close>, vector
    indexing, \<open>std::to_string\<close> and \<open>std::stoi\<close>.
  \<^item> \<open>Latency\<close>: the state of a sink (\<open>std::unordered_multiset\<close> of samples, text written), the
    reference report, and the locale \<open>latency_sink\<close> with its lemmas on whole runs. All four
    sinks interpret it. The iteration order of the unordered multiset is an argument.
  \<^item> \<open>Chain\<close>: the locale \<open>rpc_chain\<close> for the two synchronous benchmarks, proved once: what
    reaches the sink, what comes back, and how many hops are needed.
  \<^item> \<open>Thrift_Types\<close>: the class \<open>timing\<close> of \<open>timing_types.h/.cpp\<close>.
  \<^item> \<open>Thrift_Bench\<close>: \<open>bench.cpp\<close>: \<open>RelayClient\<close>, \<open>RelayHandler\<close>, \<open>SinkHandler\<close>, \<open>BenchServer\<close>
    and \<open>main\<close>. The state is the objects of \<open>main\<close> (\<open>thrift_main\<close>) and the sink's state.
  \<^item> \<open>Wire\<close>: the thrift library's protocol object as a record of operations, the locales
    \<open>protocol_in\<close> and \<open>protocol_out\<close> with its documented laws, and a protocol over token
    lists in memory on which the laws are checked.
  \<^item> \<open>Thrift_Wire\<close>: the generated \<open>read\<close> and \<open>write\<close> methods of \<open>timing\<close> and of the argument
    and result structs.
  \<^item> \<open>Thrift_Rpc\<close>: \<open>BenchClient\<close>, \<open>BenchProcessor\<close> with its event handler, \<open>BenchNull\<close>,
    \<open>BenchMultiface\<close> and the factories of \<open>Bench.h\<close> and \<open>Bench.cpp\<close>.
  \<^item> \<open>Thrift_Concurrent\<close>: \<open>BenchConcurrentClient\<close>.
  \<^item> \<open>Prog_Rules\<close>: rules for what a program can end with on any input (\<open>ends\<close>), that it
    consumes it (\<open>consumes\<close>), and what it returns (\<open>gives\<close>).
  \<^item> \<open>Thrift_Robust\<close>: the generated code on input that need not be well-formed. The locales
    \<open>input_ends\<close>, \<open>output_ends\<close> and \<open>server_ends\<close> say that the library's operations end.
  \<^item> \<open>Thrift_Chain\<close>: \<open>bench.cpp\<close> with every hop a remote call through \<open>gen-cpp\<close>
    (\<open>remote_bench\<close>, \<open>wire_call\<close>), over a network with the laws of the locale
    \<open>thrift_network\<close>.
  \<^item> \<open>Thrift_Skeleton\<close>: \<open>main\<close> of the generated server skeleton.
  \<^item> \<open>Grpc_Bench\<close>: \<open>bench.cpp\<close> of the gRPC benchmark: \<open>Relay\<close>, \<open>Sink\<close> and \<open>main\<close>.
  \<^item> \<open>Ros_Types\<close>: the messages of \<open>pnodeif\<close>, the locale \<open>topic_queue\<close> for what is between two
    nodes, and the specification both ROS 2 benchmarks refine: a FIFO channel that may lose
    messages (\<open>channel_step\<close>).
  \<^item> \<open>Ros_Pubsub\<close>: \<open>pub.cpp\<close>; a step of \<open>pnode_step\<close> is one callback of one node.
  \<^item> \<open>Ros_Service\<close>: \<open>srv.cpp\<close>; a step of \<open>srv_step\<close> is one callback of one service or one
    statement group of the client thread.
  \<^item> \<open>Rust_Bench\<close>: \<open>thrift-rs/src/main.rs\<close>, the thrift benchmark in Rust. \<open>rs_process\<close> is the
    state of its threads: the sink's vector, and which mutexes are poisoned.
  \<^item> \<open>Rust_Wire\<close>: \<open>thrift-rs/src/timing.rs\<close>, the generated code in Rust, over the protocols of
    \<open>Wire\<close>.
  \<^item> \<open>Rust_Interop\<close>: Rust and C++ at the two ends of one connection.
  \<^item> This theory: what holds across the programs.

  \<^bold>\<open>What is shown.\<close> For each sink, its behaviour on every branch (answer, report and exit, overflow)
  for every state and every iteration order; for each \<open>main\<close>, how the whole run ends. For
  the synchronous benchmarks, that a call passes exactly \<open>kNumRelays + 1\<close> hops with id and
  time stamp kept. For the ROS 2 benchmarks, refinement of the lossy FIFO channel, what can
  reach the sink, when the process ends, that it can (for the services from every state in
  which no request has been lost, \<open>srv_can_end\<close>), and that a lost service request prevents it. For the generated thrift code, round trips, reading of arbitrary structs,
  recursion limits, an end-to-end theorem for a remote call with the event handler's
  callbacks in order, and the concurrent client's calls and its handling of replies out of
  order. On any input, well-formed or cut off or malformed: the readers end, with a value or
  one of the library's exceptions (\<open>readers_end\<close>), so does the server's side of a call
  (\<open>dispatchCall_total\<close>), and a client that returns has read its result from the stream
  (\<open>recv_bench_initialised\<close>). The two halves of the thrift benchmark together: the chain over
  the wire (\<open>wire_chain\<close>) is the chain of direct calls that \<open>Thrift_Bench\<close> describes
  (\<open>wire_call_is_client_call\<close>). For the Rust benchmark, in builds with and without
  overflow checks, its whole run, its sink over any sequence of messages, and what an
  overflow does to it; the generated code of the two languages agrees on structs with fields
  of the right types and on whole calls in both directions, and the theorems say where it
  differs: a missing member, a known field of a wrong type, the largest sequence number. For
  the ROS 2 sinks, bounds on the samples (\<open>sample_bounds\<close>).

  \<^bold>\<open>Bounds.\<close> A chain of calls takes a hop count as its first argument; 21 is enough for
  the programs, and \<open>thrift_call_hops\<close>, \<open>grpc_call_hops\<close> and \<open>wire_chain\<close> say so for every count. Loops that
  may not end are \<open>loopP\<close>, a partial function, so that a theorem with a result includes
  termination. Sinks are described for fewer than \<open>2^26\<close> samples, far above the 1000 at
  which they exit.

  \<^bold>\<open>Assumed of the environment.\<close> The panic of a Rust server's thread closes its connection. The steady clock starts at 0 or later and does not go back where a
  theorem says so. A protocol object keeps the laws of \<open>Wire\<close>. ROS 2 queues keep the order of
  one publisher's messages and do not exceed their depth, and may lose messages. Callbacks of one
  ROS 2 node exclude each other. A gRPC call runs the handler on the port it names. A thrift
  connection carries what one side flushes to the other, and a server's \<open>process\<close> reads the
  message header and dispatches the call. Both directions of a stream are finite where the
  theorems on any input say that something ends.

  \<^bold>\<open>Not modelled.\<close> The zenoh benchmark in Rust (\<open>zenohbench\<close>; its generated \<open>timing.rs\<close> repeats
  the part on \<open>Timing\<close> that \<open>Rust_Wire\<close> has), build files, sockets, threads of the servers,
  sleeps, and what the libraries do inside.
\<close>

section \<open>The four sinks are one\<close>

text \<open>What a callback does to the process: how it ends it, if it does, and the samples it leaves.\<close>

definition sample_effect :: "((stop + 'r) \<times> sink_state) option \<Rightarrow> (stop option \<times> int64 multiset) option" where
  "sample_effect r = (case r of
     None \<Rightarrow> None
   | Some (Inl e, s) \<Rightarrow> Some (Some e, sink_data s)
   | Some (Inr x, s) \<Rightarrow> Some (None, sink_data s))"

lemma sample_effect_outcome:
  "sample_effect (sink_outcome line answer latency s) = sample_effect (sink_outcome line' answer' latency s)"
  by (auto simp: sample_effect_def sink_outcome_def Let_def split: sum.splits)

text \<open>
  C11: the sinks of the four benchmarks measure the same: on a message with the same time
  stamp, at the same clock reading and with the same samples so far, they keep the same
  samples and end the process in the same cases and in the same way.
\<close>

theorem sinks_agree:
  assumes "enumerates iter" and "size (sink_data s) < 2 ^ 26"
    and "req_nanosec g = nanosec m" and "t_nanosec p = nanosec m" and "t_nanosec (rq_timing r) = nanosec m"
  shows "sample_effect (Sink_bench iter now g s) = sample_effect (SinkHandler_bench iter now m s) \<and>
    sample_effect (PnodeSink_listen iter now p s) = sample_effect (SinkHandler_bench iter now m s) \<and>
    sample_effect (sink_service iter now r s) = sample_effect (SinkHandler_bench iter now m s)"
  using assms
  by (auto simp: SinkHandler_bench_cases Sink_bench_cases PnodeSink_listen_cases sink_service_cases
      thrift_hops grpc_hops pnode_hops intro: sample_effect_outcome)

theorem sinks_agree_witness:
  "sample_effect (PnodeSink_listen sorted_list_of_multiset (i64 9) Timing_new empty_sink) =
   sample_effect (SinkHandler_bench sorted_list_of_multiset (i64 9) timing_ctor empty_sink)"
  using sinks_agree [OF enumerates_sorted_list, of empty_sink Request_new timing_ctor Timing_new
      "client_request 0 (i64 0)" "i64 9"]
  by (simp add: empty_sink_def Request_new_def timing_ctor_def Timing_new_def client_request_def)

section \<open>What the report means\<close>

text \<open>
  C16: the report on 1000 samples: the numbers printed as P50 and P90 are samples (in
  microseconds); at least 501 samples are at most P50 and at least 500 are at least P50; at
  least 901 samples are at most P90 and at least 100 are at least P90.
\<close>

theorem report_percentiles:
  assumes "enumerates iter" and "size (sink_data s) = 1000"
  shows "\<exists>p50 p90. SinkHandler_print_stats iter s = Some (Inr (), s\<lparr>cout := cout s @ stats_text 1000 p50 p90\<rparr>) \<and>
    p50 \<in># sink_data s \<and> p90 \<in># sink_data s \<and>
    501 \<le> size (filter_mset (\<lambda>x. x \<le> p50) (sink_data s)) \<and> 500 \<le> size (filter_mset (\<lambda>x. p50 \<le> x) (sink_data s)) \<and>
    901 \<le> size (filter_mset (\<lambda>x. x \<le> p90) (sink_data s)) \<and> 100 \<le> size (filter_mset (\<lambda>x. p90 \<le> x) (sink_data s))"
proof (intro exI conjI)
  let ?M = "sink_data s"
  have "?M \<noteq> {#}"
    using assms(2) by auto
  then show "SinkHandler_print_stats iter s =
      Some (Inr (), s\<lparr>cout := cout s @ stats_text 1000 (percentile 500 ?M) (percentile 900 ?M)\<rparr>)"
    using assms by (simp add: SinkHandler_print_stats_report stats_report_def)
  show "percentile 500 ?M \<in># ?M" "percentile 900 ?M \<in># ?M"
    using assms(2) by (simp_all add: percentile_in)
  show "501 \<le> size (filter_mset (\<lambda>x. x \<le> percentile 500 ?M) ?M)"
    and "500 \<le> size (filter_mset (\<lambda>x. percentile 500 ?M \<le> x) ?M)"
    using percentile_rank [of 500 ?M] assms(2) by simp_all
  show "901 \<le> size (filter_mset (\<lambda>x. x \<le> percentile 900 ?M) ?M)"
    and "100 \<le> size (filter_mset (\<lambda>x. percentile 900 ?M \<le> x) ?M)"
    using percentile_rank [of 900 ?M] assms(2) by simp_all
qed

theorem report_percentiles_witness:
  "\<exists>p50 p90. SinkHandler_print_stats sorted_list_of_multiset \<lparr>sink_data = replicate_mset 1000 (i64 7), cout = []\<rparr> =
     Some (Inr (), \<lparr>sink_data = replicate_mset 1000 (i64 7), cout = stats_text 1000 p50 p90\<rparr>)"
  using report_percentiles [OF enumerates_sorted_list, of "\<lparr>sink_data = replicate_mset 1000 (i64 7), cout = []\<rparr>"]
  by auto

section \<open>The samples of the ROS 2 sinks\<close>

text \<open>
  C21: in every reachable state of the two ROS 2 systems, whatever the schedule, the losses
  and the iteration orders, the sink holds at most a thousand samples, and no sample is
  negative or more than the 21st part of the time since the clock's start: the subtraction
  and the division of the sinks neither overflow nor wrap around.
\<close>

theorem sample_bounds:
  shows "(pnode_reachable s \<longrightarrow> size (sink_data (snk s)) \<le> 1000 \<and>
      (\<forall>x \<in># sink_data (snk s). 0 \<le> ival x \<and> (pnode_kNumRelays + 1) * ival x \<le> ival (clock s))) \<and>
    (srv_reachable t \<longrightarrow> size (sink_data (srv_data t)) \<le> 1000 \<and>
      (\<forall>x \<in># sink_data (srv_data t). 0 \<le> ival x \<and> (srv_kNumRelays + 1) * ival x \<le> ival (srv_clock t)))"
proof (intro conjI impI)
  assume "pnode_reachable s"
  then show "size (sink_data (snk s)) \<le> 1000"
    using pnode_reachable_inv [of s] by (auto simp: pnode_inv_def sink_inv_def split: option.splits)
  show "\<forall>x \<in># sink_data (snk s). 0 \<le> ival x \<and> (pnode_kNumRelays + 1) * ival x \<le> ival (clock s)"
    using pnode_within [OF \<open>pnode_reachable s\<close>] by (simp add: samples_within_def pnode_kNumRelays_def)
next
  assume "srv_reachable t"
  then show "size (sink_data (srv_data t)) \<le> 1000"
    using srv_reachable_inv [of t] by (auto simp: srv_inv_def srv_sink_inv_def split: option.splits)
  show "\<forall>x \<in># sink_data (srv_data t). 0 \<le> ival x \<and> (srv_kNumRelays + 1) * ival x \<le> ival (srv_clock t)"
    using srv_within [OF \<open>srv_reachable t\<close>] by (simp add: samples_within_def srv_kNumRelays_def)
qed

theorem sample_bounds_witness:
  "\<exists>s t. pnode_reachable s \<and> ended s = Some (Exit 0) \<and> srv_reachable t \<and> srv_ended t = Some (Exit 0) \<and>
     (\<forall>x \<in># sink_data (snk s). 0 \<le> ival x \<and> 21 * ival x \<le> ival (clock s)) \<and>
     (\<forall>x \<in># sink_data (srv_data t). 0 \<le> ival x \<and> 21 * ival x \<le> ival (srv_clock t))"
proof -
  obtain s t where "pnode_reachable s" "ended s = Some (Exit 0)" "srv_reachable t" "srv_ended t = Some (Exit 0)"
    using end_reachable srv_end_reachable by blast
  with sample_bounds [of s t] show ?thesis
    by (intro exI [of _ s] exI [of _ t]) (simp add: pnode_kNumRelays_def srv_kNumRelays_def)
qed

section \<open>The sink behind the generated code\<close>

text \<open>The sink's handler as a server's \<open>BenchIf\<close>: it works on the application's part of the world.\<close>

definition sink_iface :: "iteration \<Rightarrow> int64 \<Rightarrow> sink_state port BenchIf" where
  "sink_iface iter now arg = on_app (SinkHandler_bench iter now arg)"

lemma sink_iface_serves:
  assumes "enumerates iter" and "size (sink_data s) < 999" and "per_hop (i64 21) now (nanosec m) = Inr x"
  shows "serves (\<lambda>w. w) (iface (BenchProcessor_ctor (sink_iface iter now))) (timing_all_set m)
    (before_call (\<lambda>e a. a) s) (Inr (msgid m)) \<lparr>sink_data = add_mset x (sink_data s), cout = cout s @ latency_line x\<rparr>"
proof -
  have "SinkHandler_bench iter now (timing_all_set m) s =
      Some (Inr (msgid m), \<lparr>sink_data = add_mset x (sink_data s), cout = cout s @ latency_line x\<rparr>)"
    using thrift_sink.below [of iter now "timing_all_set m" x s] assms by (simp add: timing_all_set_def)
  then show ?thesis
    by (simp add: serves_def BenchProcessor_ctor_def before_call_def yields_def sink_iface_def on_app_def)
qed

text \<open>
  A call from the last relay to the sink over the generated client and processor: as
  long as the sink has fewer than 999 samples, the call comes back with the message's id,
  and the server has stored the latency that \<open>SinkHandler::bench\<close> computes from the time
  stamp the client sent, and written its line.
\<close>

theorem call_of_the_sink:
  assumes "connection ci co cview cost" and "enumerates iter" and "size (sink_data s) < 999"
    and "per_hop (i64 21) now (nanosec m) = Inr x"
  shows "\<exists>call reply.
    (\<forall>v. 2 \<le> out_depth v \<longrightarrow> unflushed v = [] \<longrightarrow>
       yields cview v (BenchClient_send_bench \<lparr>iprot = ci, oprot = co\<rparr> m) (Inr ())
         (v\<lparr>flushed := flushed v @ Message ''bench'' T_CALL 0 # call\<rparr>)) \<and>
    (\<forall>v ts. incoming v = call @ ts \<longrightarrow> 3 \<le> in_depth v \<longrightarrow> unflushed v = [] \<longrightarrow> app v = s \<longrightarrow>
       yields (\<lambda>w. w) v (dispatchCall what (BenchProcessor_ctor (sink_iface iter now))
           (memory_protocol unit_cost) (memory_protocol unit_cost) ''bench'' 0 c) (Inr True)
         (v\<lparr>incoming := ts, flushed := flushed v @ reply,
            app := \<lparr>sink_data = add_mset x (sink_data s), cout = cout s @ latency_line x\<rparr>\<rparr>)) \<and>
    (\<forall>v ts. incoming v = reply @ ts \<longrightarrow> 2 \<le> in_depth v \<longrightarrow>
       yields cview v (BenchClient_recv_bench \<lparr>iprot = ci, oprot = co\<rparr>) (Inr (msgid m)) (v\<lparr>incoming := ts\<rparr>))"
proof -
  have map: "map_of (processMap (BenchProcessor_ctor (sink_iface iter now))) ''bench'' = Some Process_bench"
    by (simp add: BenchProcessor_ctor_def)
  show ?thesis
    using rpc_parts [OF assms(1) memory_connection observes_ctor map sink_iface_serves [OF assms(2-4)]]
    by simp
qed

theorem call_of_the_sink_witness:
  "\<exists>reply. yields (\<lambda>w. w) (port_with reply) (BenchClient_recv_bench (BenchClient_ctor (memory_protocol unit_cost)))
     (Inr (i64 3)) (port_with [])"
proof -
  let ?m = "timing_ctor\<lparr>msgid := i64 3\<rparr>"
  have "ival (i64 0) = 0" "ival (i64 42) = 42"
    by (simp_all add: ival_i64 in_i64_def)
  then have hop: "per_hop (i64 21) (i64 42) (nanosec ?m) = Inr (i64 2)"
    by (simp add: per_hop_eq thrift_hops in_i64_def timing_ctor_def signed_divide_int_def)
  have "size (sink_data empty_sink) < 999"
    by (simp add: empty_sink_def)
  note call = call_of_the_sink [OF unit_connection enumerates_sorted_list this hop, where what = "\<lambda>e. []" and c = 0]
  then obtain reply where "\<forall>(v :: unit port) ts. incoming v = reply @ ts \<longrightarrow> 2 \<le> in_depth v \<longrightarrow>
      yields (\<lambda>w. w) v (BenchClient_recv_bench \<lparr>iprot = memory_protocol unit_cost, oprot = memory_protocol unit_cost\<rparr>)
        (Inr (msgid ?m)) (v\<lparr>incoming := ts\<rparr>)"
    by (elim exE conjE) (rule that)
  from this [rule_format, of "port_with reply" "[]"] show ?thesis
    by (intro exI [of _ reply]) (simp add: BenchClient_ctor_def)
qed

end
